theory Spec2Isabelle
  imports Complex_Main "HOL-Library.Sublist" "HOL-Library.Multiset"
begin

section \<open>The platform, as far as the three views use it\<close>

text \<open>
  The views are TypeScript running in a browser. A text is modelled as a \<open>string\<close>, the bytes
  of its UTF-8 encoding, so that a character of ASCII is one byte below 128 and every other
  character a sequence of bytes from 128 on. The identifiers of events are modelled as \<open>int\<close>
  (the catalogue's identifiers are small integers, where the arithmetic of a JavaScript
  number is exact), prices and ratings as \<open>real\<close> (they are only copied).
\<close>

subsection \<open>Numbers\<close>

definition js_rem :: "int \<Rightarrow> int \<Rightarrow> int" where
  \<comment> \<open>the operator \<open>%\<close>: the result has the sign of the dividend\<close>
  "js_rem a b = sgn a * (\<bar>a\<bar> mod \<bar>b\<bar>)"

definition digit_char :: "nat \<Rightarrow> char" where
  "digit_char d = char_of (48 + d)"

fun digits :: "nat \<Rightarrow> string" where
  "digits n = (if n < 10 then [digit_char n] else digits (n div 10) @ [digit_char (n mod 10)])"

declare digits.simps [simp del]

definition toString :: "int \<Rightarrow> string" where
  \<comment> \<open>\<open>Number.prototype.toString\<close> on an integer\<close>
  "toString i = (if i < 0 then CHR ''-'' # digits (nat (- i)) else digits (nat i))"

definition padStart :: "nat \<Rightarrow> char \<Rightarrow> string \<Rightarrow> string" where
  "padStart n c s = replicate (n - length s) c @ s"

text \<open>
  The white space that \<open>Number.parseInt\<close> skips (\<open>StrWhiteSpaceChar\<close>): tab, line feed,
  vertical tab, form feed, carriage return, space, U+00A0, U+1680, U+2000 to U+200A, U+2028,
  U+2029, U+202F, U+205F, U+3000 and U+FEFF, each as its UTF-8 bytes.
\<close>

definition whiteSpace :: "string list" where
  "whiteSpace =
     [[CHR 0x09], [CHR 0x0A], [CHR 0x0B], [CHR 0x0C], [CHR 0x0D], [CHR 0x20],
      [CHR 0xC2, CHR 0xA0], [CHR 0xE1, CHR 0x9A, CHR 0x80],
      [CHR 0xE2, CHR 0x80, CHR 0x80], [CHR 0xE2, CHR 0x80, CHR 0x81],
      [CHR 0xE2, CHR 0x80, CHR 0x82], [CHR 0xE2, CHR 0x80, CHR 0x83],
      [CHR 0xE2, CHR 0x80, CHR 0x84], [CHR 0xE2, CHR 0x80, CHR 0x85],
      [CHR 0xE2, CHR 0x80, CHR 0x86], [CHR 0xE2, CHR 0x80, CHR 0x87],
      [CHR 0xE2, CHR 0x80, CHR 0x88], [CHR 0xE2, CHR 0x80, CHR 0x89],
      [CHR 0xE2, CHR 0x80, CHR 0x8A], [CHR 0xE2, CHR 0x80, CHR 0xA8],
      [CHR 0xE2, CHR 0x80, CHR 0xA9], [CHR 0xE2, CHR 0x80, CHR 0xAF],
      [CHR 0xE2, CHR 0x81, CHR 0x9F], [CHR 0xE3, CHR 0x80, CHR 0x80],
      [CHR 0xEF, CHR 0xBB, CHR 0xBF]]"

definition leadingWhiteSpace :: "string \<Rightarrow> nat" where
  \<comment> \<open>the number of bytes of the white space character that the text starts with, or 0\<close>
  "leadingWhiteSpace s =
     (case find (\<lambda>w. take (length w) s = w) whiteSpace of None \<Rightarrow> 0 | Some w \<Rightarrow> length w)"

function skipWhiteSpace :: "string \<Rightarrow> string" where
  "skipWhiteSpace s =
     (if leadingWhiteSpace s = 0 then s else skipWhiteSpace (drop (leadingWhiteSpace s) s))"
  by pat_completeness auto
termination
proof (relation "measure length")
  show "wf (measure length)" by simp
next
  fix s :: string
  assume "leadingWhiteSpace s \<noteq> 0"
  moreover have "leadingWhiteSpace [] = 0"
    by (simp add: leadingWhiteSpace_def whiteSpace_def)
  ultimately have "s \<noteq> []" by auto
  with \<open>leadingWhiteSpace s \<noteq> 0\<close> show "(drop (leadingWhiteSpace s) s, s) \<in> measure length"
    by simp
qed

declare skipWhiteSpace.simps [simp del]

definition digitValue :: "char \<Rightarrow> nat option" where
  "digitValue c =
     (let n = of_char c :: nat in
      if 48 \<le> n \<and> n \<le> 57 then Some (n - 48)
      else if 97 \<le> n \<and> n \<le> 122 then Some (n - 87)
      else if 65 \<le> n \<and> n \<le> 90 then Some (n - 55)
      else None)"

definition isRadixDigit :: "nat \<Rightarrow> char \<Rightarrow> bool" where
  "isRadixDigit R c = (case digitValue c of Some d \<Rightarrow> d < R | None \<Rightarrow> False)"

definition radixValue :: "nat \<Rightarrow> string \<Rightarrow> int" where
  "radixValue R ds =
     foldl (\<lambda>acc c. case digitValue c of Some d \<Rightarrow> acc * int R + int d | None \<Rightarrow> acc) 0 ds"

definition parseInt :: "string \<Rightarrow> int option" where
  \<comment> \<open>\<open>Number.parseInt\<close> with no radix argument; \<open>None\<close> is \<open>NaN\<close>\<close>
  "parseInt input =
     (let s = skipWhiteSpace input;
          negative = (s \<noteq> [] \<and> hd s = CHR ''-'');
          s1 = (if s \<noteq> [] \<and> (hd s = CHR ''-'' \<or> hd s = CHR ''+'') then tl s else s);
          hex = (take 2 s1 = ''0x'' \<or> take 2 s1 = ''0X'');
          R = (if hex then 16 else 10);
          s2 = (if hex then drop 2 s1 else s1);
          Z = takeWhile (isRadixDigit R) s2
      in if Z = [] then None
         else Some ((if negative then - 1 else 1) * radixValue R Z))"

subsection \<open>Strings\<close>

text \<open>
  \<open>String.prototype.toLowerCase\<close> maps every cased letter of Unicode. On a text of ASCII
  characters that is the mapping of \<open>A\<close> to \<open>Z\<close> onto \<open>a\<close> to \<open>z\<close>, which is written out. What
  the platform makes of a text with other characters is the parameter \<open>beyond\<close>.
\<close>

definition isASCII :: "string \<Rightarrow> bool" where
  "isASCII s = list_all (\<lambda>c. (of_char c :: nat) < 128) s"

definition toLowerCase_char :: "char \<Rightarrow> char" where
  "toLowerCase_char c =
     (let n = of_char c :: nat in if 65 \<le> n \<and> n \<le> 90 then char_of (n + 32) else c)"

definition toLowerCase :: "(string \<Rightarrow> string) \<Rightarrow> string \<Rightarrow> string" where
  "toLowerCase beyond s = (if isASCII s then map toLowerCase_char s else beyond s)"

fun startsWith :: "string \<Rightarrow> string \<Rightarrow> bool" where
  "startsWith s [] = True"
| "startsWith [] (c # t) = False"
| "startsWith (d # s) (c # t) = (d = c \<and> startsWith s t)"

fun includes_str :: "string \<Rightarrow> string \<Rightarrow> bool" where
  \<comment> \<open>\<open>s.includes(t)\<close>: \<open>t\<close> occurs in \<open>s\<close> at some position\<close>
  "includes_str [] t = (t = [])"
| "includes_str (d # s) t = (startsWith (d # s) t \<or> includes_str s t)"

subsection \<open>Dates\<close>

text \<open>
  A reading of the clock, \<open>new Date()\<close>, is observed in two ways: through its local calendar
  date (\<open>getDate\<close>, \<open>setDate\<close>, \<open>toLocaleDateString\<close>) and through \<open>toISOString\<close>. The local
  calendar date is the number of days since 1 January 1970; \<open>setDate(getDate() + k)\<close> moves
  it by \<open>k\<close> days, the month and the year rolling over.
\<close>

record clock =
  today :: int
  toISOString :: string

definition civil_from_days :: "int \<Rightarrow> int \<times> int \<times> int" where
  \<comment> \<open>year, month (1 to 12) and day of the month of a day number, in the Gregorian calendar\<close>
  "civil_from_days n =
     (let z = n + 719468;
          era = z div 146097;
          doe = z mod 146097;
          yoe = (doe - doe div 1460 + doe div 36524 - doe div 146096) div 365;
          doy = doe - (365 * yoe + yoe div 4 - yoe div 100);
          mp = (5 * doy + 2) div 153;
          d = doy - (153 * mp + 2) div 5 + 1;
          m = (if mp < 10 then mp + 3 else mp - 9);
          y = yoe + era * 400 + (if m \<le> 2 then 1 else 0)
      in (y, m, d))"

definition weekdays :: "string list" where
  "weekdays = [''Sunday'', ''Monday'', ''Tuesday'', ''Wednesday'', ''Thursday'', ''Friday'',
     ''Saturday'']"

definition months :: "string list" where
  "months = [''January'', ''February'', ''March'', ''April'', ''May'', ''June'', ''July'',
     ''August'', ''September'', ''October'', ''November'', ''December'']"

definition weekday_long :: "int \<Rightarrow> string" where
  \<comment> \<open>1 January 1970 was a Thursday\<close>
  "weekday_long n = weekdays ! nat ((n + 4) mod 7)"

definition month_long :: "int \<Rightarrow> string" where
  "month_long m = months ! nat ((m - 1) mod 12)"

definition month_short :: "int \<Rightarrow> string" where
  "month_short m = take 3 (month_long m)"

definition toLocaleDateString_long :: "int \<Rightarrow> string" where
  \<comment> \<open>locale en-US with weekday: long, month: long, day: numeric, year: numeric\<close>
  "toLocaleDateString_long n =
     (case civil_from_days n of (y, m, d) \<Rightarrow>
        weekday_long n @ '', '' @ month_long m @ '' '' @ toString d @ '', '' @ toString y)"

definition toLocaleDateString_short :: "int \<Rightarrow> string" where
  \<comment> \<open>locale en-US with month: short, day: numeric, year: numeric\<close>
  "toLocaleDateString_short n =
     (case civil_from_days n of (y, m, d) \<Rightarrow>
        month_short m @ '' '' @ toString d @ '', '' @ toString y)"

subsection \<open>Property lookup on an object literal\<close>

text \<open>
  \<open>locations[category]\<close> looks a key up in an object literal: first among the literal's own
  properties, then along the prototype chain, where every object literal finds the members
  of \<open>Object.prototype\<close>. Those members are functions (and, under \<open>__proto__\<close>, the prototype
  itself): none is a string, and all are truthy. A value that a lookup can give is therefore
  a string or one of these members, named by its key.
\<close>

datatype js_value = Str string | Object_prototype_member string | Undefined | Empty_object

definition Object_prototype :: "string list" where
  "Object_prototype = [''constructor'', ''hasOwnProperty'', ''isPrototypeOf'',
     ''propertyIsEnumerable'', ''toLocaleString'', ''toString'', ''valueOf'', ''__proto__'',
     ''__defineGetter__'', ''__defineSetter__'', ''__lookupGetter__'', ''__lookupSetter__'']"

definition lookup_or :: "(string \<times> string) list \<Rightarrow> string \<Rightarrow> string \<Rightarrow> js_value" where
  \<comment> \<open>\<open>literal[key] || fallback\<close>; the empty string is the one falsy string\<close>
  "lookup_or literal key fallback =
     (case map_of literal key of
        Some v \<Rightarrow> if v = [] then Str fallback else Str v
      | None \<Rightarrow> if key \<in> set Object_prototype then Object_prototype_member key
                else Str fallback)"

section \<open>Data model\<close>

text \<open>
  Modelled from the spec: \<open>User\<close>, which the authentication guard declares and the views
  only import, has an identifier, a name and an email. The identifier is taken as the text
  that a template literal makes of it.
\<close>

record User =
  user_id :: string
  user_name :: string
  user_email :: string

record Event =
  event_id :: int
  event_title :: string
  event_description :: string
  event_price :: real
  event_thumbnail :: string
  event_category :: string
  event_rating :: real
  event_stock :: int
  event_brand :: string

record EventDetail = Event +
  event_images :: "string list"
  event_discountPercentage :: real
  event_tags :: "string list"

text \<open>
  A registration is an object of the views, whose \<open>location\<close> is whatever \<open>getLocation\<close>
  returned, or an object of a JSON text, whose \<open>location\<close> is a value of JSON. The record
  serves both: \<open>RegisteredEvent\<close> is the interface of the views.
\<close>

record 'l registration =
  reg_id :: int
  reg_title :: string
  reg_price :: real
  reg_thumbnail :: string
  reg_category :: string
  registeredAt :: string
  eventDate :: string
  location :: 'l

type_synonym RegisteredEvent = "js_value registration"

record toast =
  toast_title :: string
  toast_description :: string
  destructive :: bool

subsection \<open>JSON\<close>

text \<open>
  \<open>JSON.stringify\<close> writes the numbers and the texts of a registration as they are. It
  leaves out a property whose value is a function or \<open>undefined\<close>, and writes an object
  without enumerable properties of its own, as \<open>Object.prototype\<close> is, as \<open>{}\<close>. So the
  \<open>location\<close> of a registration in a JSON text is a text, absent, or the empty object, and
  \<open>JSON.parse\<close> gives these back as a text, \<open>undefined\<close> and an empty object.
\<close>

datatype json_value = JString string | JAbsent | JEmpty_object

type_synonym json_registration = "json_value registration"

definition location_to_JSON :: "js_value \<Rightarrow> json_value" where
  "location_to_JSON l =
     (case l of
        Str s \<Rightarrow> JString s
      | Object_prototype_member k \<Rightarrow> if k = ''__proto__'' then JEmpty_object else JAbsent
      | Undefined \<Rightarrow> JAbsent
      | Empty_object \<Rightarrow> JEmpty_object)"

definition location_of_JSON :: "json_value \<Rightarrow> js_value" where
  "location_of_JSON j =
     (case j of JString s \<Rightarrow> Str s | JAbsent \<Rightarrow> Undefined | JEmpty_object \<Rightarrow> Empty_object)"

definition stringify_registration :: "RegisteredEvent \<Rightarrow> json_registration" where
  "stringify_registration r =
     \<lparr>reg_id = reg_id r, reg_title = reg_title r, reg_price = reg_price r,
      reg_thumbnail = reg_thumbnail r, reg_category = reg_category r,
      registeredAt = registeredAt r, eventDate = eventDate r,
      location = location_to_JSON (location r)\<rparr>"

definition parse_registration :: "json_registration \<Rightarrow> RegisteredEvent" where
  "parse_registration j =
     \<lparr>reg_id = reg_id j, reg_title = reg_title j, reg_price = reg_price j,
      reg_thumbnail = reg_thumbnail j, reg_category = reg_category j,
      registeredAt = registeredAt j, eventDate = eventDate j,
      location = location_of_JSON (location j)\<rparr>"

subsection \<open>Local storage\<close>

text \<open>
  Local storage maps keys to texts. Under a registration key the views write the JSON text of
  an array of registrations only: \<open>Json xs\<close> is the text of the array \<open>xs\<close>, and \<open>Unparsable\<close>
  any text that \<open>JSON.parse\<close> rejects with a \<open>SyntaxError\<close>. A key never written has no item.
  \<open>setItem\<close> throws a \<open>QuotaExceededError\<close> when the browser has no room for the value, and
  stores nothing then; whether there is room is an input of the call.
\<close>

datatype item = Json "json_registration list" | Unparsable

type_synonym local_storage = "string \<rightharpoonup> item"

datatype js_error = SyntaxError | QuotaExceededError

definition setItem :: "bool \<Rightarrow> string \<Rightarrow> item \<Rightarrow> local_storage \<Rightarrow> js_error + local_storage" where
  "setItem room key val st = (if room then Inr (st(key \<mapsto> val)) else Inl QuotaExceededError)"

definition JSON_stringify :: "RegisteredEvent list \<Rightarrow> item" where
  "JSON_stringify evs = Json (map stringify_registration evs)"

definition registrations_key :: "User \<Rightarrow> string" where
  \<comment> \<open>the template literal \<open>registrations_${user.id}\<close>\<close>
  "registrations_key u = ''registrations_'' @ user_id u"

definition parse_registrations :: "item option \<Rightarrow> js_error + RegisteredEvent list" where
  \<comment> \<open>\<open>userRegistrations ? JSON.parse(userRegistrations) : []\<close>\<close>
  "parse_registrations it =
     (case it of
        None \<Rightarrow> Inr []
      | Some (Json xs) \<Rightarrow> Inr (map parse_registration xs)
      | Some Unparsable \<Rightarrow> Inl SyntaxError)"

definition quoted :: "string \<Rightarrow> string" where
  "quoted s = [CHR 0x22] @ s @ [CHR 0x22]"

section \<open>The list view\<close>

record EventsContent =
  events :: "Event list"
  loading :: bool
  searchTerm :: string
  error :: "string option"
  toasts :: "toast list"

text \<open>
  What \<open>fetch\<close> and \<open>response.json()\<close> give: the request throws, the response is not ok, the
  body is not JSON, or the body is read and holds the products.
\<close>

datatype response = Request_throws | Not_ok | Body_throws | Ok "Event list"

definition fetchEvents_begin :: "EventsContent \<Rightarrow> EventsContent" where
  \<comment> \<open>up to the first \<open>await\<close>\<close>
  "fetchEvents_begin v = v\<lparr>loading := True, error := None\<rparr>"

definition fetchEvents_settle :: "response \<Rightarrow> EventsContent \<Rightarrow> EventsContent" where
  \<comment> \<open>from the response on: the rest of \<open>try\<close>, or \<open>catch\<close>, and then \<open>finally\<close>\<close>
  "fetchEvents_settle r v =
     (case r of
        Ok products \<Rightarrow> v\<lparr>events := products, loading := False\<rparr>
      | _ \<Rightarrow> v\<lparr>error := Some ''Failed to load events. Please try again.'',
               toasts := toasts v @
                 [\<lparr>toast_title = ''Error'',
                   toast_description = ''Failed to load events. Please check your connection.'',
                   destructive = True\<rparr>],
               loading := False\<rparr>)"

definition fetchEvents :: "response \<Rightarrow> EventsContent \<Rightarrow> EventsContent" where
  "fetchEvents r v = fetchEvents_settle r (fetchEvents_begin v)"

definition matches :: "(string \<Rightarrow> string) \<Rightarrow> string \<Rightarrow> Event \<Rightarrow> bool" where
  "matches beyond term e =
     (includes_str (toLowerCase beyond (event_title e)) (toLowerCase beyond term) \<or>
      includes_str (toLowerCase beyond (event_category e)) (toLowerCase beyond term))"

definition filteredEvents :: "(string \<Rightarrow> string) \<Rightarrow> EventsContent \<Rightarrow> Event list" where
  "filteredEvents beyond v = filter (matches beyond (searchTerm v)) (events v)"

definition formatDate_list :: "clock \<Rightarrow> int \<Rightarrow> string" where
  "formatDate_list now eventId =
     (let baseDate = today now;
          baseDate = baseDate + js_rem eventId 30 + 1
      in toLocaleDateString_short baseDate)"

definition locations_list :: "(string \<times> string) list" where
  "locations_list =
     [(''smartphones'', ''Tech Center''),
      (''laptops'', ''Innovation Hub''),
      (''fragrances'', ''Wellness Center''),
      (''skincare'', ''Beauty Lounge''),
      (''groceries'', ''Community Hall''),
      (''home-decoration'', ''Design Studio''),
      (''furniture'', ''Exhibition Center''),
      (''tops'', ''Fashion District''),
      (''womens-dresses'', ''Style Arena''),
      (''womens-shoes'', ''Fashion Plaza''),
      (''mens-shirts'', ''Men's Pavilion''),
      (''mens-shoes'', ''Sports Complex''),
      (''mens-watches'', ''Luxury Lounge''),
      (''womens-watches'', ''Elegance Hall''),
      (''womens-bags'', ''Accessories Center''),
      (''womens-jewellery'', ''Jewelry Gallery''),
      (''sunglasses'', ''Outdoor Plaza''),
      (''automotive'', ''Auto Expo Center''),
      (''motorcycle'', ''Motor Sports Arena''),
      (''lighting'', ''Design Center'')]"

definition getLocation_list :: "string \<Rightarrow> js_value" where
  "getLocation_list category = lookup_or locations_list category ''Event Center''"

text \<open>
  What the list view renders, as far as the claims go: the spinner while loading; otherwise
  the error box (the message and the button ``Try Again'' with its \<open>onClick\<close> handler), one card
  for each filtered event, and the empty state.
\<close>

datatype handler = FetchEvents | ClearSearch

datatype element =
    Spinner
  | ErrorBox string handler
  | Card Event string js_value
  | EmptyState handler

definition render :: "(string \<Rightarrow> string) \<Rightarrow> clock \<Rightarrow> EventsContent \<Rightarrow> element list" where
  "render beyond now v =
     (if loading v then [Spinner]
      else
        (case error v of
           None \<Rightarrow> []
         | Some message \<Rightarrow> if message = [] then [] else [ErrorBox message FetchEvents]) @
        map (\<lambda>e. Card e (formatDate_list now (event_id e)) (getLocation_list (event_category e)))
          (filteredEvents beyond v) @
        (if filteredEvents beyond v = [] \<and> \<not> loading v \<and> error v = None
         then [EmptyState ClearSearch] else []))"

definition onClick :: "handler \<Rightarrow> response \<Rightarrow> EventsContent \<Rightarrow> EventsContent" where
  \<comment> \<open>running a handler; the response is what the network gives if the handler fetches\<close>
  "onClick h r v = (case h of FetchEvents \<Rightarrow> fetchEvents r v | ClearSearch \<Rightarrow> v\<lparr>searchTerm := []\<rparr>)"

section \<open>The detail view\<close>

definition formatDate :: "clock \<Rightarrow> int \<Rightarrow> string" where
  "formatDate now eventId =
     (let baseDate = today now;
          baseDate = baseDate + js_rem eventId 30 + 1
      in toLocaleDateString_long baseDate)"

definition formatTime :: "int \<Rightarrow> string" where
  "formatTime eventId =
     (let hours = 9 + js_rem eventId 8;
          minutes = js_rem eventId 4 * 15
      in toString hours @ '':'' @ padStart 2 (CHR ''0'') (toString minutes) @ '' '' @
         (if hours \<ge> 12 then ''PM'' else ''AM''))"

definition locations :: "(string \<times> string) list" where
  "locations =
     [(''smartphones'', ''Tech Center, Silicon Valley''),
      (''laptops'', ''Innovation Hub, Downtown''),
      (''fragrances'', ''Wellness Center, Midtown''),
      (''skincare'', ''Beauty Lounge, Fashion District''),
      (''groceries'', ''Community Hall, Central Park''),
      (''home-decoration'', ''Design Studio, Arts Quarter''),
      (''furniture'', ''Exhibition Center, Convention Ave''),
      (''tops'', ''Fashion District, Style Street''),
      (''womens-dresses'', ''Style Arena, Fashion Plaza''),
      (''womens-shoes'', ''Fashion Plaza, Boutique Row''),
      (''mens-shirts'', ''Men's Pavilion, Commerce St''),
      (''mens-shoes'', ''Sports Complex, Athletic Ave''),
      (''mens-watches'', ''Luxury Lounge, Premium Plaza''),
      (''womens-watches'', ''Elegance Hall, Jewelry District''),
      (''womens-bags'', ''Accessories Center, Style Square''),
      (''womens-jewellery'', ''Jewelry Gallery, Diamond Row''),
      (''sunglasses'', ''Outdoor Plaza, Sunshine Blvd''),
      (''automotive'', ''Auto Expo Center, Motor Mile''),
      (''motorcycle'', ''Motor Sports Arena, Speed Way''),
      (''lighting'', ''Design Center, Innovation Park'')]"

definition getLocation :: "string \<Rightarrow> js_value" where
  "getLocation category = lookup_or locations category ''Event Center, Main Street''"

definition newRegistration :: "clock \<Rightarrow> EventDetail \<Rightarrow> RegisteredEvent" where
  "newRegistration now e =
     \<lparr>reg_id = event_id e,
      reg_title = event_title e,
      reg_price = event_price e,
      reg_thumbnail = event_thumbnail e,
      reg_category = event_category e,
      registeredAt = toISOString now,
      eventDate = formatDate now (event_id e),
      location = getLocation (event_category e)\<rparr>"

text \<open>
  The state of the detail view that registration reads and writes: the signed-in user, the
  route parameter, the loaded event and the two flags.
\<close>

record EventDetailContent =
  user :: "User option"
  eventId :: string
  event :: "EventDetail option"
  isRegistered :: bool
  registering :: bool
  detail_toasts :: "toast list"

definition getRegisteredEvents ::
  "EventDetailContent \<Rightarrow> local_storage \<Rightarrow> js_error + RegisteredEvent list" where
  "getRegisteredEvents v st =
     (case user v of
        None \<Rightarrow> Inr []
      | Some u \<Rightarrow> parse_registrations (st (registrations_key u)))"

definition saveRegisteredEvents ::
  "bool \<Rightarrow> EventDetailContent \<Rightarrow> RegisteredEvent list \<Rightarrow> local_storage \<Rightarrow>
   js_error + local_storage" where
  "saveRegisteredEvents room v evs st =
     (case user v of
        None \<Rightarrow> Inr st
      | Some u \<Rightarrow> setItem room (registrations_key u) (JSON_stringify evs) st)"

definition checkRegistrationStatus ::
  "EventDetailContent \<Rightarrow> local_storage \<Rightarrow> js_error + EventDetailContent" where
  \<comment> \<open>not under a \<open>try\<close>: the error of \<open>JSON.parse\<close> leaves the function; NaN equals no number\<close>
  "checkRegistrationStatus v st =
     (if user v = None then Inr v
      else
        (case getRegisteredEvents v st of
           Inl err \<Rightarrow> Inl err
         | Inr registeredEvents \<Rightarrow>
             Inr (v\<lparr>isRegistered :=
                      list_ex (\<lambda>regEvent. Some (reg_id regEvent) = parseInt (eventId v))
                        registeredEvents\<rparr>)))"

definition registrationFailed :: "EventDetailContent \<Rightarrow> EventDetailContent" where
  \<comment> \<open>the \<open>catch\<close> of \<open>handleRegister\<close>, and then its \<open>finally\<close>\<close>
  "registrationFailed v =
     v\<lparr>registering := False,
       detail_toasts := detail_toasts v @
         [\<lparr>toast_title = ''Registration Failed'',
           toast_description = ''Something went wrong. Please try again.'',
           destructive = True\<rparr>]\<rparr>"

definition handleRegister ::
  "bool \<Rightarrow> clock \<Rightarrow> EventDetailContent \<Rightarrow> local_storage \<Rightarrow>
   EventDetailContent \<times> local_storage" where
  "handleRegister room now v st =
     (case (user v, event v) of
        (Some u, Some e) \<Rightarrow>
          (case getRegisteredEvents v st of
             Inl err \<Rightarrow> (registrationFailed v, st)
           | Inr registeredEvents \<Rightarrow>
               if isRegistered v then
                 (let updatedEvents =
                        filter (\<lambda>regEvent. reg_id regEvent \<noteq> event_id e) registeredEvents
                  in case saveRegisteredEvents room v updatedEvents st of
                       Inl err \<Rightarrow> (registrationFailed v, st)
                     | Inr st' \<Rightarrow>
                         (v\<lparr>isRegistered := False, registering := False,
                            detail_toasts := detail_toasts v @
                              [\<lparr>toast_title = ''Unregistered Successfully'',
                                toast_description =
                                  ''You have been unregistered from '' @ quoted (event_title e)
                                    @ ''.'',
                                destructive = False\<rparr>]\<rparr>,
                          st'))
               else
                 (let updatedEvents = registeredEvents @ [newRegistration now e]
                  in case saveRegisteredEvents room v updatedEvents st of
                       Inl err \<Rightarrow> (registrationFailed v, st)
                     | Inr st' \<Rightarrow>
                         (v\<lparr>isRegistered := True, registering := False,
                            detail_toasts := detail_toasts v @
                              [\<lparr>toast_title = ''Registration Successful!'',
                                toast_description =
                                  ''You have successfully registered for '' @
                                    quoted (event_title e) @ ''.'',
                                destructive = False\<rparr>]\<rparr>,
                          st')))
      | _ \<Rightarrow> (v, st))"

section \<open>The profile view\<close>

record ProfileContent =
  profile_user :: "User option"
  registeredEvents :: "RegisteredEvent list"
  profile_loading :: bool
  profile_toasts :: "toast list"

text \<open>
  \<open>Array.prototype.sort\<close> with a comparator: a NaN from the comparator counts as zero
  (\<open>SortCompare\<close>). When the comparison is consistent on the elements of the array (each
  element equal to itself; equality symmetric; equality, less and greater transitive), the
  standard fixes the result: the sort is stable, so the result is the one sorted arrangement
  that keeps equal elements in their order, computed here by insertion from the right. When
  the comparison is not consistent, the standard leaves the order to the implementation: the
  parameter \<open>engine\<close> is the engine's arrangement then. An engine sorts in place, moving the
  elements, so whatever its order the array holds the same elements afterwards.
\<close>

definition SortCompare :: "('a \<Rightarrow> 'a \<Rightarrow> int option) \<Rightarrow> 'a \<Rightarrow> 'a \<Rightarrow> int" where
  "SortCompare comparefn x y = (case comparefn x y of None \<Rightarrow> 0 | Some v \<Rightarrow> v)"

definition consistent :: "('a \<Rightarrow> 'a \<Rightarrow> int) \<Rightarrow> 'a list \<Rightarrow> bool" where
  "consistent c xs =
     ((\<forall>a \<in> set xs. c a a = 0) \<and>
      (\<forall>a \<in> set xs. \<forall>b \<in> set xs. c a b = 0 \<longrightarrow> c b a = 0) \<and>
      (\<forall>a \<in> set xs. \<forall>b \<in> set xs. \<forall>d \<in> set xs.
         (c a b = 0 \<and> c b d = 0 \<longrightarrow> c a d = 0) \<and>
         (c a b < 0 \<and> c b d < 0 \<longrightarrow> c a d < 0) \<and>
         (c a b > 0 \<and> c b d > 0 \<longrightarrow> c a d > 0)))"

fun insert_before :: "('a \<Rightarrow> 'a \<Rightarrow> int) \<Rightarrow> 'a \<Rightarrow> 'a list \<Rightarrow> 'a list" where
  "insert_before c x [] = [x]"
| "insert_before c x (y # ys) = (if c x y \<le> 0 then x # y # ys else y # insert_before c x ys)"

definition array_sort ::
  "('a list \<Rightarrow> 'a list) \<Rightarrow> ('a \<Rightarrow> 'a \<Rightarrow> int option) \<Rightarrow> 'a list \<Rightarrow> 'a list" where
  "array_sort engine comparefn xs =
     (if consistent (SortCompare comparefn) xs
      then foldr (insert_before (SortCompare comparefn)) xs []
      else if mset (engine xs) = mset xs then engine xs else xs)"

text \<open>
  \<open>new Date(s).getTime()\<close> is the platform's reading of a date text: the milliseconds since
  the epoch, or NaN (\<open>None\<close>) for a text that is no date. The views take it as it is, so it is
  a parameter here.
\<close>

definition by_registeredAt ::
  "(string \<Rightarrow> int option) \<Rightarrow> RegisteredEvent \<Rightarrow> RegisteredEvent \<Rightarrow> int option" where
  \<comment> \<open>the comparator of \<open>loadRegisteredEvents\<close>; a difference with NaN is NaN\<close>
  "by_registeredAt getTime a b =
     (case (getTime (registeredAt b), getTime (registeredAt a)) of
        (Some tb, Some ta) \<Rightarrow> Some (tb - ta)
      | _ \<Rightarrow> None)"

definition loadRegisteredEvents ::
  "(RegisteredEvent list \<Rightarrow> RegisteredEvent list) \<Rightarrow> (string \<Rightarrow> int option) \<Rightarrow>
   ProfileContent \<Rightarrow> local_storage \<Rightarrow> ProfileContent" where
  "loadRegisteredEvents engine getTime v st =
     (case profile_user v of
        None \<Rightarrow> v
      | Some u \<Rightarrow>
          (case parse_registrations (st (registrations_key u)) of
             Inl err \<Rightarrow>
               v\<lparr>profile_toasts := profile_toasts v @
                    [\<lparr>toast_title = ''Error'',
                      toast_description = ''Failed to load your registered events.'',
                      destructive = True\<rparr>],
                  profile_loading := False\<rparr>
           | Inr evs \<Rightarrow>
               (let sortedEvents = array_sort engine (by_registeredAt getTime) evs
                in v\<lparr>registeredEvents := sortedEvents, profile_loading := False\<rparr>)))"

definition handleUnregister ::
  "bool \<Rightarrow> int \<Rightarrow> string \<Rightarrow> ProfileContent \<Rightarrow> local_storage \<Rightarrow>
   ProfileContent \<times> local_storage" where
  "handleUnregister room eventId' eventTitle v st =
     (case profile_user v of
        None \<Rightarrow> (v, st)
      | Some u \<Rightarrow>
          (let updatedEvents = filter (\<lambda>ev. reg_id ev \<noteq> eventId') (registeredEvents v)
           in case setItem room (registrations_key u) (JSON_stringify updatedEvents) st of
                Inl err \<Rightarrow>
                  (v\<lparr>profile_toasts := profile_toasts v @
                       [\<lparr>toast_title = ''Error'',
                         toast_description = ''Failed to unregister from the event.'',
                         destructive = True\<rparr>]\<rparr>,
                   st)
              | Inr st' \<Rightarrow>
                  (v\<lparr>registeredEvents := updatedEvents,
                     profile_toasts := profile_toasts v @
                       [\<lparr>toast_title = ''Unregistered Successfully'',
                         toast_description =
                           ''You have been unregistered from '' @ quoted eventTitle @ ''.'',
                         destructive = False\<rparr>]\<rparr>,
                   st')))"

section \<open>Notions of the specification\<close>

text \<open>
  The specification's words, stated apart from the code: a term is a substring of a text,
  as it is written or up to the case of its letters; a stored item holds at most one registration for each event identifier; a list of
  registrations holds one for an identifier; a list runs from the newest registration to the
  oldest, every \<open>registeredAt\<close> being a date.
\<close>

definition substring_of :: "string \<Rightarrow> string \<Rightarrow> bool" where
  "substring_of t s = (\<exists>before after. s = before @ t @ after)"

definition alphabet :: "(char \<times> char) list" where
  \<comment> \<open>the letters of ASCII, each capital with its small letter\<close>
  "alphabet = zip ''ABCDEFGHIJKLMNOPQRSTUVWXYZ'' ''abcdefghijklmnopqrstuvwxyz''"

definition same_letter :: "char \<Rightarrow> char \<Rightarrow> bool" where
  \<comment> \<open>the same character, or the capital and the small form of one letter\<close>
  "same_letter c d = (c = d \<or> (c, d) \<in> set alphabet \<or> (d, c) \<in> set alphabet)"

definition substring_ignoring_case :: "string \<Rightarrow> string \<Rightarrow> bool" where
  \<comment> \<open>the term occurs in the text, up to the case of the letters\<close>
  "substring_ignoring_case t s =
     (\<exists>before middle after. s = before @ middle @ after \<and> list_all2 same_letter t middle)"

definition at_most_once :: "item option \<Rightarrow> bool" where
  "at_most_once it = (case it of Some (Json xs) \<Rightarrow> distinct (map reg_id xs) | _ \<Rightarrow> True)"

definition registered_for :: "int \<Rightarrow> 'l registration list \<Rightarrow> bool" where
  "registered_for n xs = list_ex (\<lambda>regEvent. reg_id regEvent = n) xs"

definition newest_first :: "(string \<Rightarrow> int option) \<Rightarrow> 'l registration list \<Rightarrow> bool" where
  "newest_first getTime xs =
     sorted_wrt (\<lambda>a b. case (getTime (registeredAt a), getTime (registeredAt b)) of
                         (Some ta, Some tb) \<Rightarrow> tb \<le> ta
                       | _ \<Rightarrow> False) xs"

definition dated :: "(string \<Rightarrow> int option) \<Rightarrow> item option \<Rightarrow> bool" where
  \<comment> \<open>every \<open>registeredAt\<close> of a stored array is a date: its time value is not NaN\<close>
  "dated getTime it =
     (case it of
        Some (Json xs) \<Rightarrow> list_all (\<lambda>r. getTime (registeredAt r) \<noteq> None) xs
      | _ \<Rightarrow> True)"

text \<open>
  A run of the detail view: the button of \<open>handleRegister\<close> clicked at each of the given
  times, the browser having room for the write or not.
\<close>

fun clicks ::
  "(bool \<times> clock) list \<Rightarrow> EventDetailContent \<Rightarrow> local_storage \<Rightarrow>
   EventDetailContent \<times> local_storage" where
  "clicks [] v st = (v, st)"
| "clicks ((room, now) # rest) v st =
     (case handleRegister room now v st of (v', st') \<Rightarrow> clicks rest v' st')"

section \<open>Example data\<close>

definition alice :: User where
  "alice = \<lparr>user_id = ''1'', user_name = ''Alice'', user_email = ''alice@example.com''\<rparr>"

definition bob :: User where
  "bob = \<lparr>user_id = ''2'', user_name = ''Bob'', user_email = ''bob@example.com''\<rparr>"

definition iphone :: EventDetail where
  "iphone = \<lparr>event_id = 1, event_title = ''iPhone 9'',
     event_description = ''An apple mobile which is nothing like apple'', event_price = 549,
     event_thumbnail = ''https://cdn.dummyjson.com/1/thumbnail.jpg'',
     event_category = ''smartphones'', event_rating = 4, event_stock = 94,
     event_brand = ''Apple'', event_images = [], event_discountPercentage = 12,
     event_tags = [''mobile'']\<rparr>"

definition perfume :: EventDetail where
  "perfume = \<lparr>event_id = 11, event_title = ''Perfume Oil'',
     event_description = ''Mega discount'', event_price = 13,
     event_thumbnail = ''https://cdn.dummyjson.com/11/thumbnail.jpg'',
     event_category = ''fragrances'', event_rating = 4, event_stock = 65,
     event_brand = ''Impression of Acqua Di Gio'', event_images = [],
     event_discountPercentage = 8, event_tags = []\<rparr>"

definition plant :: EventDetail where
  "plant = \<lparr>event_id = 26, event_title = ''Plant Hanger'',
     event_description = ''Boho decor'', event_price = 41,
     event_thumbnail = ''https://cdn.dummyjson.com/26/thumbnail.jpg'',
     event_category = ''home-decoration'', event_rating = 4, event_stock = 131,
     event_brand = ''Boho Decor'', event_images = [], event_discountPercentage = 17,
     event_tags = []\<rparr>"

definition oddity :: EventDetail where
  \<comment> \<open>an event of a category that is the name of a member of \<open>Object.prototype\<close>\<close>
  "oddity = \<lparr>event_id = 7, event_title = ''Builders Meetup'',
     event_description = ''Makers and their tools'', event_price = 20,
     event_thumbnail = ''https://cdn.dummyjson.com/7/thumbnail.jpg'',
     event_category = ''constructor'', event_rating = 4, event_stock = 12,
     event_brand = ''Makers'', event_images = [], event_discountPercentage = 0,
     event_tags = []\<rparr>"

definition listed :: "EventDetail \<Rightarrow> Event" where
  \<comment> \<open>the fields of an event that the list view declares\<close>
  "listed e = \<lparr>event_id = event_id e, event_title = event_title e,
     event_description = event_description e, event_price = event_price e,
     event_thumbnail = event_thumbnail e, event_category = event_category e,
     event_rating = event_rating e, event_stock = event_stock e,
     event_brand = event_brand e\<rparr>"

definition sunday :: clock where
  "sunday = \<lparr>today = 20758, toISOString = ''2026-11-01T08:00:00.000Z''\<rparr>"

definition tuesday :: clock where
  "tuesday = \<lparr>today = 20760, toISOString = ''2026-11-03T09:30:00.000Z''\<rparr>"

definition wednesday :: clock where
  "wednesday = \<lparr>today = 20761, toISOString = ''2026-11-04T18:05:00.000Z''\<rparr>"

definition getTime_of_examples :: "string \<Rightarrow> int option" where
  \<comment> \<open>the time values of the three instants above; NaN for the other texts of the examples\<close>
  "getTime_of_examples = map_of
     [(''2026-11-01T08:00:00.000Z'', 1793520000000),
      (''2026-11-03T09:30:00.000Z'', 1793698200000),
      (''2026-11-04T18:05:00.000Z'', 1793815500000)]"

definition mounted :: "User \<Rightarrow> string \<Rightarrow> EventDetail \<Rightarrow> EventDetailContent" where
  \<comment> \<open>a detail view as it is mounted (the initial values of \<open>useState\<close>), its event loaded\<close>
  "mounted u route e = \<lparr>user = Some u, eventId = route, event = Some e, isRegistered = False,
     registering = False, detail_toasts = []\<rparr>"

definition profile_of :: "User \<Rightarrow> ProfileContent" where
  \<comment> \<open>a profile view as it is mounted\<close>
  "profile_of u = \<lparr>profile_user = Some u, registeredEvents = [], profile_loading = True,
     profile_toasts = []\<rparr>"

definition list_of :: "Event list \<Rightarrow> string \<Rightarrow> EventsContent" where
  \<comment> \<open>a list view holding the given events and search term\<close>
  "list_of evs term = \<lparr>events = evs, loading = False, searchTerm = term, error = None,
     toasts = []\<rparr>"

definition stored :: "clock \<Rightarrow> EventDetail \<Rightarrow> json_registration" where
  \<comment> \<open>the registration for an event, made at a time, as the JSON text holds it\<close>
  "stored now e = stringify_registration (newRegistration now e)"

definition alice_store :: local_storage where
  \<comment> \<open>what three registrations of \<open>alice\<close>, on three days, leave in the store\<close>
  "alice_store = [registrations_key alice \<mapsto>
     Json [stored sunday iphone, stored tuesday perfume, stored wednesday plant]]"

definition undated :: json_registration where
  \<comment> \<open>a stored registration whose \<open>registeredAt\<close> is no date: its time value is NaN\<close>
  "undated = (stored tuesday perfume)\<lparr>registeredAt := ''not a date''\<rparr>"

section \<open>Properties of the derived fields\<close>

subsection \<open>Venues\<close>

lemma locations_truthy: "map_of locations c = Some v \<Longrightarrow> v \<noteq> []"
proof -
  have "\<forall>p \<in> set locations. snd p \<noteq> []" by (simp add: locations_def)
  moreover assume "map_of locations c = Some v"
  then have "(c, v) \<in> set locations" by (rule map_of_SomeD)
  ultimately show ?thesis by fastforce
qed

lemma locations_list_truthy: "map_of locations_list c = Some v \<Longrightarrow> v \<noteq> []"
proof -
  have "\<forall>p \<in> set locations_list. snd p \<noteq> []" by (simp add: locations_list_def)
  moreover assume "map_of locations_list c = Some v"
  then have "(c, v) \<in> set locations_list" by (rule map_of_SomeD)
  ultimately show ?thesis by fastforce
qed

lemma twenty_categories:
  "length locations = 20 \<and> distinct (map fst locations) \<and>
   map fst locations_list = map fst locations"
  by (simp add: locations_def locations_list_def)

text \<open>A category of the table gets the table's venue, in both views.\<close>

lemma getLocation_listed: "map_of locations c = Some v \<Longrightarrow> getLocation c = Str v"
  using locations_truthy [of c v] by (simp add: getLocation_def lookup_or_def)

lemma getLocation_list_listed: "map_of locations_list c = Some v \<Longrightarrow> getLocation_list c = Str v"
  using locations_list_truthy [of c v] by (simp add: getLocation_list_def lookup_or_def)

text \<open>
  A category that is neither in the table nor the name of a member of \<open>Object.prototype\<close>
  gets the default venue; the empty string is such a category.
\<close>

lemma getLocation_unlisted:
  "map_of locations c = None \<Longrightarrow> c \<notin> set Object_prototype \<Longrightarrow>
   getLocation c = Str ''Event Center, Main Street''"
  by (simp add: getLocation_def lookup_or_def)

lemma getLocation_list_unlisted:
  "map_of locations_list c = None \<Longrightarrow> c \<notin> set Object_prototype \<Longrightarrow>
   getLocation_list c = Str ''Event Center''"
  by (simp add: getLocation_list_def lookup_or_def)

lemma getLocation_empty:
  "getLocation [] = Str ''Event Center, Main Street'' \<and> getLocation_list [] = Str ''Event Center''"
  by (simp add: getLocation_def getLocation_list_def lookup_or_def locations_def
      locations_list_def Object_prototype_def)

text \<open>
  Claim C9: \<open>getLocation\<close> returns the table's venue for the twenty categories of its table
  and the default venue for every other category string. The code does not: for the category
  \<open>constructor\<close>, which is not in the table, the lookup finds the member of
  \<open>Object.prototype\<close> of that name, which is truthy, so that \<open>||\<close> never reaches the
  default, and what is returned is no string at all. The same holds in the list view.
\<close>

theorem getLocation_constructor:
  "map_of locations ''constructor'' = None \<and>
   getLocation ''constructor'' = Object_prototype_member ''constructor'' \<and>
   getLocation ''constructor'' \<noteq> Str ''Event Center, Main Street'' \<and>
   getLocation_list ''constructor'' = Object_prototype_member ''constructor'' \<and>
   getLocation_list ''constructor'' \<noteq> Str ''Event Center''"
  by (simp add: getLocation_def getLocation_list_def lookup_or_def locations_def
      locations_list_def Object_prototype_def)

subsection \<open>Dates and times\<close>





text \<open>
  Claim C2: the date, the time and the venue that the detail view derives depend on the
  identifier and the category of the event only. The time and the venue do, being functions of
  the identifier and of the category. The date does not: \<open>formatDate\<close> starts from the clock,
  so the event of identifier 1 is dated 5 November when the view is rendered on 3 November
  2026 and 6 November when it is rendered a day later.
\<close>

theorem formatDate_moves_with_the_clock:
  "formatDate tuesday 1 = ''Thursday, November 5, 2026'' \<and>
   formatDate wednesday 1 = ''Friday, November 6, 2026'' \<and>
   formatDate tuesday 1 \<noteq> formatDate wednesday 1"
  by code_simp

lemma formatDate_same_day: "today now = today now' \<Longrightarrow> formatDate now n = formatDate now' n"
  by (simp add: formatDate_def)

lemma formatTime_examples:
  "formatTime 1 = ''10:15 AM'' \<and> formatTime 11 = ''12:45 PM'' \<and> formatTime 26 = ''11:30 AM''"
  by code_simp

section \<open>Properties of the list view\<close>

lemma startsWith_prefix: "startsWith s t = prefix t s"
  by (induction s t rule: startsWith.induct) auto

lemma includes_str_sublist: "includes_str s t = sublist t s"
  by (induction s) (simp_all add: startsWith_prefix sublist_Cons_right)

lemma includes_str_substring_of: "includes_str s t = substring_of t s"
  by (simp add: includes_str_sublist sublist_def substring_of_def)

text \<open>On a text of ASCII characters the lower-casing is that of the letters \<open>A\<close> to \<open>Z\<close>.\<close>

lemma toLowerCase_ASCII: "isASCII s \<Longrightarrow> toLowerCase beyond s = map toLowerCase_char s"
  by (simp add: toLowerCase_def)

lemma toLowerCase_empty: "toLowerCase beyond [] = []"
  by (simp add: toLowerCase_def isASCII_def)

lemma toLowerCase_examples:
  "toLowerCase beyond ''PHONE'' = ''phone'' \<and> toLowerCase beyond ''iPhone 9'' = ''iphone 9'' \<and>
   toLowerCase beyond ''smartphones'' = ''smartphones''"
  by code_simp

lemma matches_empty: "matches beyond [] e"
  by (simp add: matches_def toLowerCase_empty includes_str_sublist)

text \<open>
  Claim C5, as stated: the filtered list holds exactly the fetched events whose title or
  category has the search term as a substring. It fails, because the code compares the
  lower-cased texts: the term \<open>PHONE\<close> is a substring neither of the title \<open>iPhone 9\<close> nor of
  the category \<open>smartphones\<close>, and the event is in the filtered list.
\<close>

theorem filteredEvents_ignores_case:
  "filteredEvents id (list_of [listed iphone, listed perfume] ''PHONE'') = [listed iphone] \<and>
   event_title (listed iphone) = ''iPhone 9'' \<and>
   event_category (listed iphone) = ''smartphones'' \<and>
   \<not> substring_of ''PHONE'' ''iPhone 9'' \<and>
   \<not> substring_of ''PHONE'' ''smartphones''"
proof -
  have "filteredEvents id (list_of [listed iphone, listed perfume] ''PHONE'') = [listed iphone]"
    by code_simp
  moreover have "event_title (listed iphone) = ''iPhone 9''"
    and "event_category (listed iphone) = ''smartphones''"
    by (simp_all add: listed_def iphone_def)
  moreover have "\<not> includes_str ''iPhone 9'' ''PHONE''" and "\<not> includes_str ''smartphones'' ''PHONE''"
    by code_simp+
  ultimately show ?thesis by (simp add: includes_str_substring_of)
qed

text \<open>
  On texts of ASCII characters, the lower-cased term is a substring of the lower-cased text
  exactly when the term occurs in the text up to the case of the letters.
\<close>

lemma capitals_lowered:
  "list_all (\<lambda>(C, c). toLowerCase_char C = c \<and> toLowerCase_char c = c \<and>
      65 \<le> (of_char C :: nat) \<and> (of_char C :: nat) \<le> 90 \<and>
      \<not> (65 \<le> (of_char c :: nat) \<and> (of_char c :: nat) \<le> 90)) alphabet"
  by code_simp

lemma capitals_listed:
  "list_all (\<lambda>n. (char_of n, char_of (n + 32)) \<in> set alphabet) [65..<91]"
  by code_simp

lemma alphabet_lowered:
  assumes "(C, c) \<in> set alphabet"
  shows "toLowerCase_char C = c" and "toLowerCase_char c = c"
    and "65 \<le> (of_char C :: nat) \<and> (of_char C :: nat) \<le> 90"
    and "\<not> (65 \<le> (of_char c :: nat) \<and> (of_char c :: nat) \<le> 90)"
  using capitals_lowered assms by (auto simp: list_all_iff)

lemma capital_in_alphabet:
  assumes "65 \<le> (of_char c :: nat)" and "(of_char c :: nat) \<le> 90"
  shows "(c, toLowerCase_char c) \<in> set alphabet"
proof -
  from assms have "(of_char c :: nat) \<in> {65..<91}" by simp
  then have "(of_char c :: nat) \<in> set [65..<91]" by (simp only: set_upt)
  with capitals_listed
  have "(char_of (of_char c :: nat), char_of ((of_char c :: nat) + 32)) \<in> set alphabet"
    unfolding list_all_iff by blast
  with assms show ?thesis by (simp add: toLowerCase_char_def)
qed

lemma not_capital_lowered:
  "\<not> (65 \<le> (of_char c :: nat) \<and> (of_char c :: nat) \<le> 90) \<Longrightarrow> toLowerCase_char c = c"
  by (auto simp: toLowerCase_char_def Let_def)

lemma toLowerCase_char_idem: "toLowerCase_char (toLowerCase_char c) = toLowerCase_char c"
proof (cases "65 \<le> (of_char c :: nat) \<and> (of_char c :: nat) \<le> 90")
  case True
  then have "(c, toLowerCase_char c) \<in> set alphabet" by (simp add: capital_in_alphabet)
  then show ?thesis by (rule alphabet_lowered(2))
next
  case False
  then show ?thesis by (simp add: not_capital_lowered)
qed

lemma same_letter_iff: "same_letter c d \<longleftrightarrow> toLowerCase_char c = toLowerCase_char d"
proof
  assume "same_letter c d"
  then consider "c = d" | "(c, d) \<in> set alphabet" | "(d, c) \<in> set alphabet"
    unfolding same_letter_def by blast
  then show "toLowerCase_char c = toLowerCase_char d"
  proof cases
    case 1 then show ?thesis by simp
  next
    case 2 then show ?thesis by (simp add: alphabet_lowered(1,2))
  next
    case 3 then show ?thesis by (simp add: alphabet_lowered(1,2))
  qed
next
  assume eq: "toLowerCase_char c = toLowerCase_char d"
  let ?cap = "\<lambda>x. 65 \<le> (of_char x :: nat) \<and> (of_char x :: nat) \<le> 90"
  show "same_letter c d"
  proof (cases "?cap c")
    case c: True
    show ?thesis
    proof (cases "?cap d")
      case True
      with c eq have "char_of ((of_char c :: nat) + 32) = (char_of ((of_char d :: nat) + 32) :: char)"
        by (simp add: toLowerCase_char_def)
      then have "((of_char c :: nat) + 32) mod 256 = ((of_char d :: nat) + 32) mod 256"
        by (simp add: char_of_eq_iff take_bit_eq_mod)
      with c True have "(of_char c :: nat) = of_char d" by simp
      then have "c = d" by simp
      then show ?thesis by (simp add: same_letter_def)
    next
      case False
      then have "toLowerCase_char d = d" by (rule not_capital_lowered)
      with eq capital_in_alphabet [of c] c have "(c, d) \<in> set alphabet" by simp
      then show ?thesis by (simp add: same_letter_def)
    qed
  next
    case c: False
    then have lc: "toLowerCase_char c = c" by (rule not_capital_lowered)
    show ?thesis
    proof (cases "?cap d")
      case True
      with eq lc capital_in_alphabet [of d] have "(d, c) \<in> set alphabet" by simp
      then show ?thesis by (simp add: same_letter_def)
    next
      case False
      then have "toLowerCase_char d = d" by (rule not_capital_lowered)
      with eq lc show ?thesis by (simp add: same_letter_def)
    qed
  qed
qed

lemma same_letters_iff:
  "list_all2 same_letter t m \<longleftrightarrow> map toLowerCase_char t = map toLowerCase_char m"
proof (induction t arbitrary: m)
  case Nil
  then show ?case by auto
next
  case (Cons c t)
  then show ?case by (cases m) (auto simp: same_letter_iff)
qed

lemma substring_ignoring_case_iff:
  "substring_ignoring_case t s \<longleftrightarrow>
   substring_of (map toLowerCase_char t) (map toLowerCase_char s)"
proof
  assume "substring_ignoring_case t s"
  then obtain before middle after
    where "s = before @ middle @ after" and "list_all2 same_letter t middle"
    unfolding substring_ignoring_case_def by blast
  then have "map toLowerCase_char s =
      map toLowerCase_char before @ map toLowerCase_char t @ map toLowerCase_char after"
    by (simp add: same_letters_iff)
  then show "substring_of (map toLowerCase_char t) (map toLowerCase_char s)"
    unfolding substring_of_def by blast
next
  assume "substring_of (map toLowerCase_char t) (map toLowerCase_char s)"
  then obtain b a where "map toLowerCase_char s = b @ map toLowerCase_char t @ a"
    unfolding substring_of_def by blast
  then have "\<exists>us vs. s = us @ vs \<and> b = map toLowerCase_char us \<and>
      map toLowerCase_char t @ a = map toLowerCase_char vs"
    by (simp only: map_eq_append_conv)
  then obtain before rest where s: "s = before @ rest"
    and "map toLowerCase_char t @ a = map toLowerCase_char rest"
    by blast
  then have "\<exists>us vs. rest = us @ vs \<and> map toLowerCase_char t = map toLowerCase_char us \<and>
      a = map toLowerCase_char vs"
    by (simp only: append_eq_map_conv)
  then obtain middle after where r: "rest = middle @ after"
    and "map toLowerCase_char t = map toLowerCase_char middle"
    by blast
  then have "list_all2 same_letter t middle" by (simp add: same_letters_iff)
  with s r show "substring_ignoring_case t s"
    unfolding substring_ignoring_case_def by blast
qed

lemma matches_ASCII:
  assumes "isASCII term" and "isASCII (event_title e)" and "isASCII (event_category e)"
  shows "matches beyond term e \<longleftrightarrow>
    substring_ignoring_case term (event_title e) \<or>
    substring_ignoring_case term (event_category e)"
  using assms
  by (simp add: matches_def toLowerCase_ASCII includes_str_substring_of
      substring_ignoring_case_iff)

text \<open>
  Claim C5, amended: the filtered list holds exactly the fetched events for which the
  lower-cased search term is a substring of the lower-cased title or of the lower-cased
  category, in the order of the fetched list; with the empty search term it is the whole
  fetched list. When the term, the titles and the categories are texts of ASCII characters,
  these are the events in whose title or category the term occurs up to the case of the
  letters \<open>A\<close> to \<open>Z\<close>. The first holds whatever the platform's lower-casing makes of the texts
  beyond ASCII.
\<close>

theorem filteredEvents_substring_match:
  "filteredEvents beyond v =
     filter (\<lambda>e. substring_of (toLowerCase beyond (searchTerm v))
                   (toLowerCase beyond (event_title e)) \<or>
                 substring_of (toLowerCase beyond (searchTerm v))
                   (toLowerCase beyond (event_category e)))
       (events v) \<and>
   (isASCII (searchTerm v) \<and>
    (\<forall>e \<in> set (events v). isASCII (event_title e) \<and> isASCII (event_category e)) \<longrightarrow>
      filteredEvents beyond v =
        filter (\<lambda>e. substring_ignoring_case (searchTerm v) (event_title e) \<or>
                    substring_ignoring_case (searchTerm v) (event_category e))
          (events v)) \<and>
   subseq (filteredEvents beyond v) (events v) \<and>
   (searchTerm v = [] \<longrightarrow> filteredEvents beyond v = events v)"
proof (intro conjI impI)
  have "matches beyond (searchTerm v) =
    (\<lambda>e. substring_of (toLowerCase beyond (searchTerm v)) (toLowerCase beyond (event_title e)) \<or>
         substring_of (toLowerCase beyond (searchTerm v)) (toLowerCase beyond (event_category e)))"
    by (rule ext) (simp add: matches_def includes_str_substring_of)
  then show "filteredEvents beyond v =
     filter (\<lambda>e. substring_of (toLowerCase beyond (searchTerm v))
                   (toLowerCase beyond (event_title e)) \<or>
                 substring_of (toLowerCase beyond (searchTerm v))
                   (toLowerCase beyond (event_category e)))
       (events v)"
    by (simp add: filteredEvents_def)
  show "subseq (filteredEvents beyond v) (events v)"
    by (simp add: filteredEvents_def)
  show "filteredEvents beyond v = events v" if "searchTerm v = []"
    using that by (simp add: filteredEvents_def matches_empty)
  show "filteredEvents beyond v =
        filter (\<lambda>e. substring_ignoring_case (searchTerm v) (event_title e) \<or>
                    substring_ignoring_case (searchTerm v) (event_category e))
          (events v)"
    if "isASCII (searchTerm v) \<and>
      (\<forall>e \<in> set (events v). isASCII (event_title e) \<and> isASCII (event_category e))"
    unfolding filteredEvents_def
    by (rule filter_cong) (simp_all add: that matches_ASCII)
qed

theorem filteredEvents_substring_match_witness:
  "searchTerm (list_of [listed iphone, listed perfume] []) = [] \<and>
   filteredEvents id (list_of [listed iphone, listed perfume] []) =
     [listed iphone, listed perfume] \<and>
   isASCII (searchTerm (list_of [listed perfume, listed plant] ''HOME'')) \<and>
   list_all (\<lambda>e. isASCII (event_title e) \<and> isASCII (event_category e))
     (events (list_of [listed perfume, listed plant] ''HOME'')) \<and>
   event_category (listed plant) = ''home-decoration'' \<and>
   filteredEvents id (list_of [listed perfume, listed plant] ''HOME'') = [listed plant]"
proof -
  let ?v = "list_of [listed iphone, listed perfume] []"
  have h: "searchTerm ?v = []" by (simp add: list_of_def)
  have "filteredEvents id ?v = events ?v"
    using filteredEvents_substring_match [of id ?v] h by blast
  then have a: "filteredEvents id ?v = [listed iphone, listed perfume]"
    by (simp add: list_of_def)
  let ?w = "list_of [listed perfume, listed plant] ''HOME''"
  have tm: "searchTerm ?w = ''HOME''" and evs: "events ?w = [listed perfume, listed plant]"
    by (simp_all add: list_of_def)
  have h1: "isASCII (searchTerm ?w)"
    unfolding tm by code_simp
  have h2: "list_all (\<lambda>e. isASCII (event_title e) \<and> isASCII (event_category e)) (events ?w)"
    unfolding evs by code_simp
  then have h2': "\<forall>e \<in> set (events ?w). isASCII (event_title e) \<and> isASCII (event_category e)"
    by (simp only: list_all_iff)
  have cat: "event_category (listed plant) = ''home-decoration''"
    by (simp add: listed_def plant_def)
  have p1: "substring_ignoring_case ''HOME'' (event_category (listed plant))"
    by (simp only: substring_ignoring_case_iff includes_str_substring_of [symmetric]) code_simp
  have p2: "\<not> substring_ignoring_case ''HOME'' (event_title (listed perfume))"
    by (simp only: substring_ignoring_case_iff includes_str_substring_of [symmetric]) code_simp
  have p3: "\<not> substring_ignoring_case ''HOME'' (event_category (listed perfume))"
    by (simp only: substring_ignoring_case_iff includes_str_substring_of [symmetric]) code_simp
  have "filteredEvents id ?w =
        filter (\<lambda>e. substring_ignoring_case (searchTerm ?w) (event_title e) \<or>
                    substring_ignoring_case (searchTerm ?w) (event_category e))
          (events ?w)"
    using filteredEvents_substring_match [of id ?w] h1 h2' by blast
  then have b: "filteredEvents id ?w = [listed plant]"
    by (simp add: tm evs p1 p2 p3)
  from h a h1 h2 cat b show ?thesis by blast
qed

text \<open>
  Claim C8: when the request throws, the response is not ok or its body cannot be read,
  \<open>fetchEvents\<close> leaves the events as they were, sets the error message and clears the
  loading flag; the view then shows the message with the button whose handler is
  \<open>fetchEvents\<close> again. When the fetch succeeds the error is cleared and the events are the
  products of the response.
\<close>

theorem fetchEvents_failure_and_success:
  "(r \<in> {Request_throws, Not_ok, Body_throws} \<longrightarrow>
      events (fetchEvents r v) = events v \<and>
      error (fetchEvents r v) = Some ''Failed to load events. Please try again.'' \<and>
      loading (fetchEvents r v) = False \<and>
      hd (render beyond now (fetchEvents r v)) =
        ErrorBox ''Failed to load events. Please try again.'' FetchEvents \<and>
      onClick FetchEvents r' (fetchEvents r v) = fetchEvents r' (fetchEvents r v)) \<and>
   events (fetchEvents (Ok products) v) = products \<and>
   error (fetchEvents (Ok products) v) = None \<and>
   loading (fetchEvents (Ok products) v) = False"
  by (auto simp: fetchEvents_def fetchEvents_begin_def fetchEvents_settle_def render_def
      onClick_def)

theorem fetchEvents_failure_and_success_witness:
  "Not_ok \<in> {Request_throws, Not_ok, Body_throws} \<and>
   events (fetchEvents Not_ok (list_of [listed iphone] ''oil'')) = [listed iphone] \<and>
   error (fetchEvents Not_ok (list_of [listed iphone] ''oil'')) =
     Some ''Failed to load events. Please try again.'' \<and>
   loading (fetchEvents Not_ok (list_of [listed iphone] ''oil'')) = False \<and>
   hd (render id tuesday (fetchEvents Not_ok (list_of [listed iphone] ''oil''))) =
     ErrorBox ''Failed to load events. Please try again.'' FetchEvents \<and>
   events (onClick FetchEvents (Ok [listed perfume])
             (fetchEvents Not_ok (list_of [listed iphone] ''oil''))) = [listed perfume] \<and>
   error (onClick FetchEvents (Ok [listed perfume])
            (fetchEvents Not_ok (list_of [listed iphone] ''oil''))) = None"
proof -
  let ?v = "list_of [listed iphone] ''oil''"
  have h: "Not_ok \<in> {Request_throws, Not_ok, Body_throws}" by simp
  note t = fetchEvents_failure_and_success
    [of Not_ok ?v id tuesday "Ok [listed perfume]" "[listed perfume]"]
  from t h have a: "events (fetchEvents Not_ok ?v) = events ?v"
    and b: "error (fetchEvents Not_ok ?v) = Some ''Failed to load events. Please try again.''"
    and c: "loading (fetchEvents Not_ok ?v) = False"
    and d: "hd (render id tuesday (fetchEvents Not_ok ?v)) =
        ErrorBox ''Failed to load events. Please try again.'' FetchEvents"
    and e: "onClick FetchEvents (Ok [listed perfume]) (fetchEvents Not_ok ?v) =
        fetchEvents (Ok [listed perfume]) (fetchEvents Not_ok ?v)"
    by blast+
  have f: "events (fetchEvents (Ok [listed perfume]) (fetchEvents Not_ok ?v)) = [listed perfume]"
    and g: "error (fetchEvents (Ok [listed perfume]) (fetchEvents Not_ok ?v)) = None"
    by (simp_all add: fetchEvents_def fetchEvents_begin_def fetchEvents_settle_def)
  have "events ?v = [listed iphone]" by (simp add: list_of_def)
  with a b c d e f g h show ?thesis by simp
qed

section \<open>Properties of the registrations\<close>

subsection \<open>JSON\<close>

lemma location_JSON_roundtrip: "location_to_JSON (location_of_JSON j) = j"
  by (cases j) (simp_all add: location_to_JSON_def location_of_JSON_def)

lemma stringify_parse: "stringify_registration (parse_registration j) = j"
  by (simp add: stringify_registration_def parse_registration_def location_JSON_roundtrip)

lemma stringify_parse_list: "map stringify_registration (map parse_registration raw) = raw"
  by (induction raw) (simp_all add: stringify_parse)

lemma parse_stringify_venue:
  "location r = Str venue \<Longrightarrow> parse_registration (stringify_registration r) = r"
  by (cases r)
    (simp add: stringify_registration_def parse_registration_def location_to_JSON_def
      location_of_JSON_def)

lemma stringify_parse_comp: "map (stringify_registration \<circ> parse_registration) raw = raw"
  by (induction raw) (simp_all add: stringify_parse)

lemma reg_id_stringify: "reg_id (stringify_registration r) = reg_id r"
  by (simp add: stringify_registration_def)

lemma reg_id_parse: "reg_id (parse_registration j) = reg_id j"
  by (simp add: parse_registration_def)

lemma registeredAt_stringify: "registeredAt (stringify_registration r) = registeredAt r"
  by (simp add: stringify_registration_def)

lemma registeredAt_parse: "registeredAt (parse_registration j) = registeredAt j"
  by (simp add: parse_registration_def)

lemma map_reg_id_stringify: "map reg_id (map stringify_registration xs) = map reg_id xs"
  by (simp add: reg_id_stringify)

lemma map_reg_id_parse: "map reg_id (map parse_registration raw) = map reg_id raw"
  by (simp add: reg_id_parse)

lemma stringify_filter_parsed:
  "map stringify_registration (filter (\<lambda>r. reg_id r \<noteq> n) (map parse_registration raw)) =
   filter (\<lambda>r. reg_id r \<noteq> n) raw"
  by (induction raw) (simp_all add: reg_id_parse stringify_parse)

subsection \<open>What the operations store\<close>

lemma registered_for_iff: "registered_for n xs \<longleftrightarrow> n \<in> reg_id ` set xs"
  by (auto simp: registered_for_def list_ex_iff)

lemma reg_id_newRegistration: "reg_id (newRegistration now e) = event_id e"
  by (simp add: newRegistration_def)

lemma registeredAt_newRegistration: "registeredAt (newRegistration now e) = toISOString now"
  by (simp add: newRegistration_def)

lemma getRegisteredEvents_stored:
  "user v = Some u \<Longrightarrow> st (registrations_key u) = Some (Json raw) \<Longrightarrow>
   getRegisteredEvents v st = Inr (map parse_registration raw)"
  by (simp add: getRegisteredEvents_def parse_registrations_def)

lemma getRegisteredEvents_nothing_stored:
  "user v = Some u \<Longrightarrow> st (registrations_key u) = None \<Longrightarrow> getRegisteredEvents v st = Inr []"
  by (simp add: getRegisteredEvents_def parse_registrations_def)

lemma getRegisteredEvents_cases:
  assumes "user v = Some u" and "getRegisteredEvents v st = Inr xs"
  obtains raw where "xs = map parse_registration raw"
    and "st (registrations_key u) = None \<and> raw = [] \<or> st (registrations_key u) = Some (Json raw)"
  using assms
  by (auto simp: getRegisteredEvents_def parse_registrations_def
      split: option.splits item.splits)

lemma at_most_once_stored:
  "user v = Some u \<Longrightarrow> getRegisteredEvents v st = Inr xs \<Longrightarrow>
   at_most_once (st (registrations_key u)) = distinct (map reg_id xs)"
  by (auto simp: getRegisteredEvents_def parse_registrations_def at_most_once_def
      map_reg_id_parse simp del: map_map split: option.splits item.splits)

lemma registrationFailed_view:
  "user (registrationFailed v) = user v" "event (registrationFailed v) = event v"
  "eventId (registrationFailed v) = eventId v"
  "isRegistered (registrationFailed v) = isRegistered v"
  by (simp_all add: registrationFailed_def)

lemma handleRegister_view:
  "user (fst (handleRegister room now v st)) = user v \<and>
   event (fst (handleRegister room now v st)) = event v \<and>
   eventId (fst (handleRegister room now v st)) = eventId v"
  by (simp add: handleRegister_def saveRegisteredEvents_def setItem_def Let_def
      registrationFailed_view split: option.splits sum.splits)

lemma handleRegister_signed_out: "user v = None \<Longrightarrow> handleRegister room now v st = (v, st)"
  by (simp add: handleRegister_def)

lemma handleRegister_not_loaded: "event v = None \<Longrightarrow> handleRegister room now v st = (v, st)"
  by (simp add: handleRegister_def split: option.splits)

lemma handleRegister_unparsable:
  "user v = Some u \<Longrightarrow> event v = Some e \<Longrightarrow> getRegisteredEvents v st = Inl err \<Longrightarrow>
   handleRegister room now v st = (registrationFailed v, st)"
  by (simp add: handleRegister_def)

text \<open>When the browser has no room, nothing is stored and the view reports the failure.\<close>

lemma handleRegister_no_room:
  "user v = Some u \<Longrightarrow> event v = Some e \<Longrightarrow>
   handleRegister False now v st = (registrationFailed v, st)"
  by (simp add: handleRegister_def saveRegisteredEvents_def setItem_def Let_def
      split: sum.splits)

lemma handleRegister_unregister_branch:
  assumes "user v = Some u" and "event v = Some e" and "isRegistered v"
    and "getRegisteredEvents v st = Inr xs"
  shows "snd (handleRegister True now v st) (registrations_key u) =
           Some (Json (map stringify_registration
             (filter (\<lambda>regEvent. reg_id regEvent \<noteq> event_id e) xs)))"
    and "\<not> isRegistered (fst (handleRegister True now v st))"
  using assms
  by (simp_all add: handleRegister_def saveRegisteredEvents_def setItem_def JSON_stringify_def
      Let_def)

lemma handleRegister_register_branch:
  assumes "user v = Some u" and "event v = Some e" and "\<not> isRegistered v"
    and "getRegisteredEvents v st = Inr xs"
  shows "snd (handleRegister True now v st) (registrations_key u) =
           Some (Json (map stringify_registration (xs @ [newRegistration now e])))"
    and "isRegistered (fst (handleRegister True now v st))"
  using assms
  by (simp_all add: handleRegister_def saveRegisteredEvents_def setItem_def JSON_stringify_def
      Let_def)

lemma handleUnregister_stored:
  "profile_user p = Some u \<Longrightarrow>
   snd (handleUnregister True n t p st) (registrations_key u) =
     Some (Json (map stringify_registration
       (filter (\<lambda>ev. reg_id ev \<noteq> n) (registeredEvents p))))"
  by (simp add: handleUnregister_def setItem_def JSON_stringify_def Let_def)

lemma handleUnregister_no_room:
  "profile_user p = Some u \<Longrightarrow> snd (handleUnregister False n t p st) = st \<and>
   registeredEvents (fst (handleUnregister False n t p st)) = registeredEvents p"
  by (simp add: handleUnregister_def setItem_def Let_def)

lemma handleUnregister_signed_out:
  "profile_user p = None \<Longrightarrow> handleUnregister room n t p st = (p, st)"
  by (simp add: handleUnregister_def)

lemma loadRegisteredEvents_view:
  "profile_user p = Some u \<Longrightarrow> parse_registrations (st (registrations_key u)) = Inr xs \<Longrightarrow>
   registeredEvents (loadRegisteredEvents engine getTime p st) =
     array_sort engine (by_registeredAt getTime) xs \<and>
   profile_user (loadRegisteredEvents engine getTime p st) = Some u"
  by (simp add: loadRegisteredEvents_def)

subsection \<open>Sorting\<close>

lemma mset_insert_before: "mset (insert_before c x xs) = add_mset x (mset xs)"
  by (induction xs) simp_all

lemma mset_insertion: "mset (foldr (insert_before c) xs []) = mset xs"
  by (induction xs) (simp_all add: mset_insert_before)

lemma mset_array_sort: "mset (array_sort engine comparefn xs) = mset xs"
  by (simp add: array_sort_def mset_insertion)

lemma set_insert_before: "set (insert_before c x xs) = insert x (set xs)"
  by (induction xs) auto

lemma set_insertion: "set (foldr (insert_before c) xs []) = set xs"
  using mset_insertion [of c xs] by (metis set_mset_mset)

lemma set_array_sort: "set (array_sort engine comparefn xs) = set xs"
  using mset_array_sort [of engine comparefn xs] by (metis set_mset_mset)

lemma distinct_ids_array_sort:
  "distinct (map reg_id (array_sort engine comparefn xs)) = distinct (map reg_id xs)"
proof -
  have "mset (map reg_id (array_sort engine comparefn xs)) = mset (map reg_id xs)"
    by (simp add: mset_array_sort)
  then show ?thesis by (rule mset_eq_imp_distinct_iff)
qed

lemma SortCompare_by_registeredAt:
  "getTime (registeredAt a) = Some ta \<Longrightarrow> getTime (registeredAt b) = Some tb \<Longrightarrow>
   SortCompare (by_registeredAt getTime) a b = tb - ta"
  by (simp add: SortCompare_def by_registeredAt_def)

lemma SortCompare_no_date:
  "getTime (registeredAt a) = None \<or> getTime (registeredAt b) = None \<Longrightarrow>
   SortCompare (by_registeredAt getTime) a b = 0"
  by (auto simp: SortCompare_def by_registeredAt_def split: option.splits)

text \<open>When every \<open>registeredAt\<close> is a date, the comparison of the profile view is consistent.\<close>

lemma consistent_by_registeredAt:
  assumes "\<forall>r \<in> set xs. getTime (registeredAt r) \<noteq> None"
  shows "consistent (SortCompare (by_registeredAt getTime)) xs"
proof -
  have cmp: "\<exists>ta tb. getTime (registeredAt a) = Some ta \<and> getTime (registeredAt b) = Some tb \<and>
      SortCompare (by_registeredAt getTime) a b = tb - ta"
    if "a \<in> set xs" and "b \<in> set xs" for a b
  proof -
    from that assms have "getTime (registeredAt a) \<noteq> None" and "getTime (registeredAt b) \<noteq> None"
      by blast+
    then obtain ta tb where
      "getTime (registeredAt a) = Some ta" and "getTime (registeredAt b) = Some tb"
      by blast
    then show ?thesis using SortCompare_by_registeredAt by blast
  qed
  show ?thesis
    unfolding consistent_def
  proof (intro conjI ballI impI)
    fix a assume "a \<in> set xs"
    from cmp [OF this this] show "SortCompare (by_registeredAt getTime) a a = 0" by auto
  next
    fix a b assume "a \<in> set xs" "b \<in> set xs"
      and "SortCompare (by_registeredAt getTime) a b = 0"
    with cmp [of a b] cmp [of b a] show "SortCompare (by_registeredAt getTime) b a = 0"
      by auto
  next
    fix a b d assume "a \<in> set xs" "b \<in> set xs" "d \<in> set xs"
      and "SortCompare (by_registeredAt getTime) a b = 0 \<and>
           SortCompare (by_registeredAt getTime) b d = 0"
    with cmp [of a b] cmp [of b d] cmp [of a d]
    show "SortCompare (by_registeredAt getTime) a d = 0" by auto
  next
    fix a b d assume "a \<in> set xs" "b \<in> set xs" "d \<in> set xs"
      and "SortCompare (by_registeredAt getTime) a b < 0 \<and>
           SortCompare (by_registeredAt getTime) b d < 0"
    with cmp [of a b] cmp [of b d] cmp [of a d]
    show "SortCompare (by_registeredAt getTime) a d < 0" by auto
  next
    fix a b d assume "a \<in> set xs" "b \<in> set xs" "d \<in> set xs"
      and "0 < SortCompare (by_registeredAt getTime) a b \<and>
           0 < SortCompare (by_registeredAt getTime) b d"
    with cmp [of a b] cmp [of b d] cmp [of a d]
    show "0 < SortCompare (by_registeredAt getTime) a d" by auto
  qed
qed

lemma newest_first_insert_before:
  assumes "newest_first getTime xs"
    and "\<forall>r \<in> insert x (set xs). getTime (registeredAt r) \<noteq> None"
  shows "newest_first getTime (insert_before (SortCompare (by_registeredAt getTime)) x xs)"
  using assms
proof (induction xs)
  case Nil
  then show ?case by (simp add: newest_first_def)
next
  case (Cons y ys)
  from Cons.prems(2) obtain tx ty where
    tx: "getTime (registeredAt x) = Some tx" and ty: "getTime (registeredAt y) = Some ty"
    by auto
  have cmp: "SortCompare (by_registeredAt getTime) x y = ty - tx"
    by (rule SortCompare_by_registeredAt [OF tx ty])
  show ?case
  proof (cases "ty \<le> tx")
    case True
    have "\<forall>z \<in> set ys. case getTime (registeredAt z) of Some tz \<Rightarrow> tz \<le> tx | None \<Rightarrow> False"
    proof
      fix z assume z: "z \<in> set ys"
      with Cons.prems(2) obtain tz where tz: "getTime (registeredAt z) = Some tz" by auto
      from Cons.prems(1) z ty tz have "tz \<le> ty" by (auto simp: newest_first_def)
      with True tz show "case getTime (registeredAt z) of Some tz \<Rightarrow> tz \<le> tx | None \<Rightarrow> False"
        by simp
    qed
    with True Cons.prems(1) tx ty cmp show ?thesis
      by (auto simp: newest_first_def split: option.splits)
  next
    case False
    have ih: "newest_first getTime (insert_before (SortCompare (by_registeredAt getTime)) x ys)"
      using Cons.IH Cons.prems by (simp add: newest_first_def)
    from False Cons.prems(1) tx ty cmp ih show ?thesis
      by (auto simp: newest_first_def set_insert_before split: option.splits)
  qed
qed

lemma newest_first_insertion:
  "\<forall>r \<in> set xs. getTime (registeredAt r) \<noteq> None \<Longrightarrow>
   newest_first getTime (foldr (insert_before (SortCompare (by_registeredAt getTime))) xs [])"
proof (induction xs)
  case Nil
  then show ?case by (simp add: newest_first_def)
next
  case (Cons x xs)
  let ?sorted = "foldr (insert_before (SortCompare (by_registeredAt getTime))) xs []"
  from Cons have "newest_first getTime ?sorted" by simp
  moreover from Cons.prems
  have "\<forall>r \<in> insert x (set ?sorted). getTime (registeredAt r) \<noteq> None"
    by (simp add: set_insertion)
  ultimately have "newest_first getTime
      (insert_before (SortCompare (by_registeredAt getTime)) x ?sorted)"
    by (rule newest_first_insert_before)
  then show ?case by simp
qed

lemma newest_first_array_sort:
  "\<forall>r \<in> set xs. getTime (registeredAt r) \<noteq> None \<Longrightarrow>
   newest_first getTime (array_sort engine (by_registeredAt getTime) xs)"
  by (simp add: array_sort_def consistent_by_registeredAt newest_first_insertion)

text \<open>The engine has no say where the comparison is consistent.\<close>

lemma array_sort_consistent:
  "consistent (SortCompare comparefn) xs \<Longrightarrow>
   array_sort engine comparefn xs = foldr (insert_before (SortCompare comparefn)) xs []"
  by (simp add: array_sort_def)

subsection \<open>The examples, evaluated\<close>

lemma mounted_fields:
  "user (mounted u route e) = Some u" "event (mounted u route e) = Some e"
  "eventId (mounted u route e) = route" "\<not> isRegistered (mounted u route e)"
  by (simp_all add: mounted_def)

lemma profile_of_user: "profile_user (profile_of u) = Some u"
  by (simp add: profile_of_def)

lemma example_ids:
  "event_id iphone = 1" "event_id perfume = 11" "event_id plant = 26" "event_id oddity = 7"
  by (simp_all add: iphone_def perfume_def plant_def oddity_def)

lemma example_venues:
  "getLocation (event_category iphone) = Str ''Tech Center, Silicon Valley''"
  "getLocation (event_category perfume) = Str ''Wellness Center, Midtown''"
  "getLocation (event_category plant) = Str ''Design Studio, Arts Quarter''"
  by (simp_all add: iphone_def perfume_def plant_def getLocation_def lookup_or_def locations_def)

lemma location_newRegistration: "location (newRegistration now e) = getLocation (event_category e)"
  by (simp add: newRegistration_def)

lemma parse_stored:
  "parse_registration (stored now iphone) = newRegistration now iphone"
  "parse_registration (stored now perfume) = newRegistration now perfume"
  "parse_registration (stored now plant) = newRegistration now plant"
  unfolding stored_def
  by (rule parse_stringify_venue, simp add: location_newRegistration example_venues)+

lemma reg_id_stored: "reg_id (stored now e) = event_id e"
  by (simp add: stored_def reg_id_stringify reg_id_newRegistration)

lemma oddity_venue:
  "getLocation (event_category oddity) = Object_prototype_member ''constructor''"
  by (simp add: oddity_def getLocation_def lookup_or_def locations_def Object_prototype_def)

lemma oddity_stored: "location (stored now oddity) = JAbsent"
  by (simp add: stored_def stringify_registration_def location_newRegistration oddity_venue
      location_to_JSON_def)

lemma example_times:
  "getTime_of_examples (registeredAt (newRegistration sunday e)) = Some 1793520000000"
  "getTime_of_examples (registeredAt (newRegistration tuesday e)) = Some 1793698200000"
  "getTime_of_examples (registeredAt (newRegistration wednesday e)) = Some 1793815500000"
  by (simp_all add: registeredAt_newRegistration sunday_def tuesday_def wednesday_def
      getTime_of_examples_def)

lemma example_sorted:
  "array_sort engine (by_registeredAt getTime_of_examples)
     [newRegistration sunday iphone, newRegistration tuesday perfume,
      newRegistration wednesday plant] =
   [newRegistration wednesday plant, newRegistration tuesday perfume,
    newRegistration sunday iphone]"
proof -
  let ?xs = "[newRegistration sunday iphone, newRegistration tuesday perfume,
      newRegistration wednesday plant]"
  have "\<forall>r \<in> set ?xs. getTime_of_examples (registeredAt r) \<noteq> None"
    by (simp add: example_times)
  then have "consistent (SortCompare (by_registeredAt getTime_of_examples)) ?xs"
    by (rule consistent_by_registeredAt)
  then have "array_sort engine (by_registeredAt getTime_of_examples) ?xs =
      foldr (insert_before (SortCompare (by_registeredAt getTime_of_examples))) ?xs []"
    by (rule array_sort_consistent)
  then show ?thesis
    by (simp add: SortCompare_by_registeredAt [OF example_times(1) example_times(2)]
      SortCompare_by_registeredAt [OF example_times(1) example_times(3)]
      SortCompare_by_registeredAt [OF example_times(2) example_times(3)]
      SortCompare_by_registeredAt [OF example_times(2) example_times(1)]
      SortCompare_by_registeredAt [OF example_times(3) example_times(1)]
      SortCompare_by_registeredAt [OF example_times(3) example_times(2)])
qed

subsection \<open>Registering\<close>

text \<open>
  Claim C3, as stated: when a signed-in user registers for a loaded event that is not in the
  list, \<open>handleRegister\<close> appends exactly one registration, whose location is \<open>getLocation\<close>
  of the category. It fails in two ways. When the browser has no room for the value,
  \<open>setItem\<close> throws, the \<open>catch\<close> reports the failure and nothing is appended. And for an
  event of the category \<open>constructor\<close>, \<open>getLocation\<close> returns a function (the slip of claim
  C9), which \<open>JSON.stringify\<close> leaves out: the stored registration has no location.
\<close>

theorem handleRegister_does_not_always_append:
  "\<not> isRegistered (mounted alice ''1'' iphone) \<and>
   snd (handleRegister False tuesday (mounted alice ''1'' iphone) Map.empty)
     (registrations_key alice) = None \<and>
   getLocation (event_category oddity) = Object_prototype_member ''constructor'' \<and>
   snd (handleRegister True tuesday (mounted alice ''7'' oddity) Map.empty)
     (registrations_key alice) = Some (Json [stored tuesday oddity]) \<and>
   location (stored tuesday oddity) = JAbsent"
proof -
  have "snd (handleRegister False tuesday (mounted alice ''1'' iphone) Map.empty)
     (registrations_key alice) = None"
    by (simp add: handleRegister_no_room [OF mounted_fields(1,2)])
  moreover have "getRegisteredEvents (mounted alice ''7'' oddity) Map.empty = Inr []"
    by (simp add: getRegisteredEvents_nothing_stored [OF mounted_fields(1)])
  then have "snd (handleRegister True tuesday (mounted alice ''7'' oddity) Map.empty)
     (registrations_key alice) = Some (Json [stored tuesday oddity])"
    using handleRegister_register_branch(1) [OF mounted_fields(1,2,4), of alice "''7''" oddity
        Map.empty "[]" tuesday]
    by (simp add: stored_def)
  ultimately show ?thesis
    by (simp add: mounted_fields oddity_venue oddity_stored)
qed

text \<open>
  Claim C3, amended: when a signed-in user registers for a loaded event (the view takes the
  branch that registers, its flag saying that the event is not in the list), the stored text
  is an array or absent, and the browser has room, \<open>handleRegister\<close> stores the array that was
  stored with exactly one registration appended, every stored registration unchanged. The new
  registration has the identifier, title, price, thumbnail and category of the event, the
  clock's \<open>toISOString\<close> as \<open>registeredAt\<close>, \<open>formatDate\<close> of the identifier as \<open>eventDate\<close>,
  and as \<open>location\<close> what \<open>getLocation\<close> gives for the category, when that is a venue. When
  the browser has no room, nothing is stored and the view reports the failure.
\<close>

theorem handleRegister_appends:
  assumes "user v = Some u" and "event v = Some e" and "\<not> isRegistered v"
    and "st (registrations_key u) = None \<and> raw = [] \<or> st (registrations_key u) = Some (Json raw)"
    and "getLocation (event_category e) = Str venue"
  shows "snd (handleRegister True now v st) (registrations_key u) =
           Some (Json (raw @ [stringify_registration (newRegistration now e)])) \<and>
         stringify_registration (newRegistration now e) =
           \<lparr>reg_id = event_id e, reg_title = event_title e, reg_price = event_price e,
            reg_thumbnail = event_thumbnail e, reg_category = event_category e,
            registeredAt = toISOString now, eventDate = formatDate now (event_id e),
            location = JString venue\<rparr> \<and>
         isRegistered (fst (handleRegister True now v st)) \<and>
         handleRegister False now v st = (registrationFailed v, st)"
proof (intro conjI)
  have read: "getRegisteredEvents v st = Inr (map parse_registration raw)"
    using assms(1,4)
    by (auto simp: getRegisteredEvents_stored getRegisteredEvents_nothing_stored)
  from handleRegister_register_branch(1) [OF assms(1-3) read, of now]
  show "snd (handleRegister True now v st) (registrations_key u) =
           Some (Json (raw @ [stringify_registration (newRegistration now e)]))"
    by (simp add: stringify_parse_comp)
  show "stringify_registration (newRegistration now e) =
           \<lparr>reg_id = event_id e, reg_title = event_title e, reg_price = event_price e,
            reg_thumbnail = event_thumbnail e, reg_category = event_category e,
            registeredAt = toISOString now, eventDate = formatDate now (event_id e),
            location = JString venue\<rparr>"
    using assms(5)
    by (simp add: stringify_registration_def newRegistration_def location_to_JSON_def)
  show "isRegistered (fst (handleRegister True now v st))"
    by (rule handleRegister_register_branch(2) [OF assms(1-3) read])
  show "handleRegister False now v st = (registrationFailed v, st)"
    by (rule handleRegister_no_room [OF assms(1,2)])
qed

theorem handleRegister_appends_witness:
  "user (mounted alice ''1'' iphone) = Some alice \<and>
   event (mounted alice ''1'' iphone) = Some iphone \<and>
   \<not> isRegistered (mounted alice ''1'' iphone) \<and>
   [registrations_key alice \<mapsto> Json [stored sunday plant]] (registrations_key alice) =
     Some (Json [stored sunday plant]) \<and>
   getLocation (event_category iphone) = Str ''Tech Center, Silicon Valley'' \<and>
   snd (handleRegister True tuesday (mounted alice ''1'' iphone)
          [registrations_key alice \<mapsto> Json [stored sunday plant]])
     (registrations_key alice) = Some (Json [stored sunday plant, stored tuesday iphone]) \<and>
   location (stored tuesday iphone) = JString ''Tech Center, Silicon Valley'' \<and>
   registeredAt (stored tuesday iphone) = ''2026-11-03T09:30:00.000Z'' \<and>
   snd (handleRegister False tuesday (mounted alice ''1'' iphone)
          [registrations_key alice \<mapsto> Json [stored sunday plant]])
     (registrations_key alice) = Some (Json [stored sunday plant])"
proof -
  let ?v = "mounted alice ''1'' iphone"
  let ?st = "[registrations_key alice \<mapsto> Json [stored sunday plant]]"
  have h: "user ?v = Some alice" "event ?v = Some iphone" "\<not> isRegistered ?v"
    by (simp_all add: mounted_fields)
  have s: "?st (registrations_key alice) = Some (Json [stored sunday plant])" by simp
  then have s': "?st (registrations_key alice) = None \<and> [stored sunday plant] = [] \<or>
      ?st (registrations_key alice) = Some (Json [stored sunday plant])"
    by blast
  have g: "getLocation (event_category iphone) = Str ''Tech Center, Silicon Valley''"
    by (rule example_venues(1))
  note t = handleRegister_appends
    [of ?v alice iphone ?st "[stored sunday plant]" "''Tech Center, Silicon Valley''" tuesday,
     OF h s' g]
  from t have a: "snd (handleRegister True tuesday ?v ?st) (registrations_key alice) =
      Some (Json [stored sunday plant, stored tuesday iphone])"
    by (simp add: stored_def)
  from t have "stringify_registration (newRegistration tuesday iphone) =
           \<lparr>reg_id = event_id iphone, reg_title = event_title iphone,
            reg_price = event_price iphone, reg_thumbnail = event_thumbnail iphone,
            reg_category = event_category iphone, registeredAt = toISOString tuesday,
            eventDate = formatDate tuesday (event_id iphone),
            location = JString ''Tech Center, Silicon Valley''\<rparr>"
    by blast
  then have b: "location (stored tuesday iphone) = JString ''Tech Center, Silicon Valley''"
    and c: "registeredAt (stored tuesday iphone) = ''2026-11-03T09:30:00.000Z''"
    by (simp_all add: stored_def tuesday_def)
  from t have "handleRegister False tuesday ?v ?st = (registrationFailed ?v, ?st)"
    by blast
  then have d: "snd (handleRegister False tuesday ?v ?st) (registrations_key alice) =
      Some (Json [stored sunday plant])"
    by simp
  from h s g a b c d show ?thesis by blast
qed

subsection \<open>One key for each user\<close>

lemma registrations_key_inj:
  "registrations_key u = registrations_key w \<longleftrightarrow> user_id u = user_id w"
  by (simp add: registrations_key_def)

lemma handleRegister_writes:
  "user v = Some u \<Longrightarrow> k \<noteq> registrations_key u \<Longrightarrow>
   snd (handleRegister room now v st) k = st k"
  by (simp add: handleRegister_def saveRegisteredEvents_def setItem_def Let_def
      split: option.splits sum.splits)

lemma handleUnregister_writes:
  "profile_user p = Some u \<Longrightarrow> k \<noteq> registrations_key u \<Longrightarrow>
   snd (handleUnregister room n t p st) k = st k"
  by (simp add: handleUnregister_def setItem_def Let_def)

lemma getRegisteredEvents_reads:
  "user v = Some u \<Longrightarrow> st (registrations_key u) = st' (registrations_key u) \<Longrightarrow>
   getRegisteredEvents v st = getRegisteredEvents v st'"
  by (simp add: getRegisteredEvents_def)

lemma handleRegister_reads:
  assumes "user v = Some u" and "st (registrations_key u) = st' (registrations_key u)"
  shows "fst (handleRegister room now v st) = fst (handleRegister room now v st')"
    and "snd (handleRegister room now v st) (registrations_key u) =
         snd (handleRegister room now v st') (registrations_key u)"
  using getRegisteredEvents_reads [of v u st st'] assms
  by (simp_all add: handleRegister_def saveRegisteredEvents_def setItem_def Let_def
      split: option.splits sum.splits)

lemma checkRegistrationStatus_reads:
  assumes "user v = Some u" and "st (registrations_key u) = st' (registrations_key u)"
  shows "checkRegistrationStatus v st = checkRegistrationStatus v st'"
  using getRegisteredEvents_reads [of v u st st'] assms
  by (simp add: checkRegistrationStatus_def)

lemma loadRegisteredEvents_reads:
  assumes "profile_user p = Some u" and "st (registrations_key u) = st' (registrations_key u)"
  shows "loadRegisteredEvents engine getTime p st = loadRegisteredEvents engine getTime p st'"
  using assms by (simp add: loadRegisteredEvents_def)

lemma handleUnregister_reads:
  assumes "profile_user p = Some u" and "st (registrations_key u) = st' (registrations_key u)"
  shows "fst (handleUnregister room n t p st) = fst (handleUnregister room n t p st')"
    and "snd (handleUnregister room n t p st) (registrations_key u) =
         snd (handleUnregister room n t p st') (registrations_key u)"
  using assms by (simp_all add: handleUnregister_def setItem_def Let_def)

text \<open>
  Claim C7: what the views read and write for a user \<open>u\<close> is the item under the key
  \<open>registrations_\<close> followed by the identifier of \<open>u\<close>, and nothing else: the operations
  leave every other key as it was, and two stores that agree on that key give the same
  results. So what \<open>u\<close> registers or unregisters leaves the list of every user with another
  identifier unchanged.
\<close>

theorem registrations_keyed_by_user:
  assumes "user v = Some u" and "profile_user p = Some u"
  shows "registrations_key u = ''registrations_'' @ user_id u \<and>
    (\<forall>k. k \<noteq> registrations_key u \<longrightarrow>
       snd (handleRegister room now v st) k = st k \<and>
       snd (handleUnregister room' n t p st) k = st k) \<and>
    (\<forall>st'. st' (registrations_key u) = st (registrations_key u) \<longrightarrow>
       checkRegistrationStatus v st' = checkRegistrationStatus v st \<and>
       fst (handleRegister room now v st') = fst (handleRegister room now v st) \<and>
       snd (handleRegister room now v st') (registrations_key u) =
         snd (handleRegister room now v st) (registrations_key u) \<and>
       loadRegisteredEvents engine getTime p st' = loadRegisteredEvents engine getTime p st \<and>
       fst (handleUnregister room' n t p st') = fst (handleUnregister room' n t p st) \<and>
       snd (handleUnregister room' n t p st') (registrations_key u) =
         snd (handleUnregister room' n t p st) (registrations_key u)) \<and>
    (\<forall>w. user_id w \<noteq> user_id u \<longrightarrow>
       snd (handleRegister room now v st) (registrations_key w) = st (registrations_key w) \<and>
       snd (handleUnregister room' n t p st) (registrations_key w) =
         st (registrations_key w))"
proof (intro conjI allI impI)
  show "registrations_key u = ''registrations_'' @ user_id u"
    by (simp add: registrations_key_def)
next
  fix k assume "k \<noteq> registrations_key u"
  then show "snd (handleRegister room now v st) k = st k"
    and "snd (handleUnregister room' n t p st) k = st k"
    using assms by (simp_all add: handleRegister_writes handleUnregister_writes)
next
  fix st' assume same: "st' (registrations_key u) = st (registrations_key u)"
  show "checkRegistrationStatus v st' = checkRegistrationStatus v st"
    using checkRegistrationStatus_reads [of v u st' st] assms(1) same by simp
  show "fst (handleRegister room now v st') = fst (handleRegister room now v st)"
    using handleRegister_reads(1) [of v u st' st] assms(1) same by simp
  show "snd (handleRegister room now v st') (registrations_key u) =
        snd (handleRegister room now v st) (registrations_key u)"
    using handleRegister_reads(2) [of v u st' st] assms(1) same by simp
  show "loadRegisteredEvents engine getTime p st' = loadRegisteredEvents engine getTime p st"
    using loadRegisteredEvents_reads [of p u st' st] assms(2) same by simp
  show "fst (handleUnregister room' n t p st') = fst (handleUnregister room' n t p st)"
    using handleUnregister_reads(1) [of p u st' st] assms(2) same by simp
  show "snd (handleUnregister room' n t p st') (registrations_key u) =
        snd (handleUnregister room' n t p st) (registrations_key u)"
    using handleUnregister_reads(2) [of p u st' st] assms(2) same by simp
next
  fix w :: User assume "user_id w \<noteq> user_id u"
  then have "registrations_key w \<noteq> registrations_key u"
    by (simp add: registrations_key_inj)
  then show "snd (handleRegister room now v st) (registrations_key w) = st (registrations_key w)"
    and "snd (handleUnregister room' n t p st) (registrations_key w) = st (registrations_key w)"
    using assms by (simp_all add: handleRegister_writes handleUnregister_writes)
qed

theorem registrations_keyed_by_user_witness:
  "user (mounted alice ''1'' iphone) = Some alice \<and>
   profile_user (profile_of alice) = Some alice \<and>
   user_id bob \<noteq> user_id alice \<and>
   snd (handleRegister True tuesday (mounted alice ''1'' iphone)
          [registrations_key bob \<mapsto> Json [stored sunday plant]])
     (registrations_key bob) = Some (Json [stored sunday plant]) \<and>
   snd (handleUnregister True 26 ''Plant Hanger'' (profile_of alice)
          [registrations_key bob \<mapsto> Json [stored sunday plant]])
     (registrations_key bob) = Some (Json [stored sunday plant])"
proof -
  let ?st = "[registrations_key bob \<mapsto> Json [stored sunday plant]]"
  have h: "user (mounted alice ''1'' iphone) = Some alice"
    "profile_user (profile_of alice) = Some alice"
    by (simp_all add: mounted_fields profile_of_user)
  have d: "user_id bob \<noteq> user_id alice" by (simp add: alice_def bob_def)
  from registrations_keyed_by_user [OF h, of True tuesday ?st True 26 "''Plant Hanger''"] d
  have "snd (handleRegister True tuesday (mounted alice ''1'' iphone) ?st) (registrations_key bob) =
          ?st (registrations_key bob)"
    and "snd (handleUnregister True 26 ''Plant Hanger'' (profile_of alice) ?st)
          (registrations_key bob) = ?st (registrations_key bob)"
    by blast+
  with h d show ?thesis by simp
qed

subsection \<open>At most one registration for each event\<close>

text \<open>
  One call of \<open>handleRegister\<close>, from a state in which the flag of the view says what the
  stored list says: the list keeps at most one registration for each identifier, and the flag
  again says what the list says.
\<close>

lemma parse_stringify_parsed:
  "map parse_registration (map stringify_registration (map parse_registration raw)) =
   map parse_registration raw"
  by (induction raw) (simp_all add: stringify_parse)

lemma handleRegister_step:
  assumes "user v = Some u" and "event v = Some e"
    and "getRegisteredEvents v st = Inr xs"
    and "at_most_once (st (registrations_key u))"
    and "isRegistered v = registered_for (event_id e) xs"
  shows "\<exists>ys. getRegisteredEvents (fst (handleRegister room now v st))
                (snd (handleRegister room now v st)) = Inr ys \<and>
           at_most_once (snd (handleRegister room now v st) (registrations_key u)) \<and>
           isRegistered (fst (handleRegister room now v st)) = registered_for (event_id e) ys \<and>
           (isRegistered v \<longrightarrow> set ys \<subseteq> set xs)"
proof (cases room)
  case False
  then have "handleRegister room now v st = (registrationFailed v, st)"
    using handleRegister_no_room [OF assms(1,2)] by simp
  moreover have "getRegisteredEvents (registrationFailed v) st = Inr xs"
    using assms(3) by (simp add: getRegisteredEvents_def registrationFailed_view)
  ultimately show ?thesis
    using assms(4,5) by (simp add: registrationFailed_view)
next
  case True
  let ?v' = "fst (handleRegister True now v st)" and ?st' = "snd (handleRegister True now v st)"
  have user': "user ?v' = Some u"
    using assms(1) by (simp add: handleRegister_view)
  have dist: "distinct (map reg_id xs)"
    using at_most_once_stored [OF assms(1,3)] assms(4) by simp
  from getRegisteredEvents_cases [OF assms(1,3)]
  obtain raw where raw: "xs = map parse_registration raw" by blast
  have "\<exists>ys. getRegisteredEvents ?v' ?st' = Inr ys \<and>
           at_most_once (?st' (registrations_key u)) \<and>
           isRegistered ?v' = registered_for (event_id e) ys \<and>
           (isRegistered v \<longrightarrow> set ys \<subseteq> set xs)"
  proof (cases "isRegistered v")
    case True
    let ?ys = "filter (\<lambda>regEvent. reg_id regEvent \<noteq> event_id e) xs"
    have stored: "?st' (registrations_key u) = Some (Json (map stringify_registration ?ys))"
      and flag: "\<not> isRegistered ?v'"
      using handleRegister_unregister_branch [OF assms(1,2) True assms(3)] by simp_all
    have "map stringify_registration ?ys = filter (\<lambda>r. reg_id r \<noteq> event_id e) raw"
      unfolding raw by (rule stringify_filter_parsed)
    then have "map parse_registration (map stringify_registration ?ys) = ?ys"
      unfolding raw by (simp add: filter_map comp_def reg_id_parse del: map_map)
    then have "getRegisteredEvents ?v' ?st' = Inr ?ys"
      using user' stored by (simp add: getRegisteredEvents_def parse_registrations_def)
    moreover have "at_most_once (?st' (registrations_key u))"
      using dist
      by (simp add: stored at_most_once_def map_reg_id_stringify distinct_map_filter
          del: map_map)
    moreover have "isRegistered ?v' = registered_for (event_id e) ?ys"
      using flag by (auto simp: registered_for_iff)
    moreover have "set ?ys \<subseteq> set xs" by auto
    ultimately show ?thesis by blast
  next
    case False
    let ?ys = "xs @ [newRegistration now e]"
    let ?zs = "map parse_registration (map stringify_registration ?ys)"
    have stored: "?st' (registrations_key u) = Some (Json (map stringify_registration ?ys))"
      and flag: "isRegistered ?v'"
      using handleRegister_register_branch [OF assms(1,2) False assms(3)] by simp_all
    have fresh: "event_id e \<notin> reg_id ` set xs"
      using False assms(5) by (simp add: registered_for_iff)
    have "getRegisteredEvents ?v' ?st' = Inr ?zs"
      using user' stored by (simp add: getRegisteredEvents_def parse_registrations_def)
    moreover have "at_most_once (?st' (registrations_key u))"
      using dist fresh
      by (simp add: stored at_most_once_def map_reg_id_stringify reg_id_stringify
          reg_id_newRegistration del: map_map)
    moreover have "registered_for (event_id e) ?zs"
    proof -
      let ?z = "parse_registration (stringify_registration (newRegistration now e))"
      have "reg_id ?z = event_id e"
        by (simp add: reg_id_parse reg_id_stringify reg_id_newRegistration)
      moreover have "?z \<in> set ?zs" by simp
      ultimately have "event_id e \<in> reg_id ` set ?zs" by (metis imageI)
      then show ?thesis by (simp only: registered_for_iff)
    qed
    ultimately show ?thesis using False flag by blast
  qed
  with True show ?thesis by simp
qed

text \<open>
  The membership check sets the flag to what the stored list says, when the route's
  identifier is the identifier of the loaded event.
\<close>

lemma checkRegistrationStatus_agrees:
  assumes "user v = Some u" and "event v = Some e"
    and "parseInt (eventId v) = Some (event_id e)"
    and "checkRegistrationStatus v st = Inr v'"
  shows "\<exists>xs. getRegisteredEvents v' st = Inr xs \<and>
           isRegistered v' = registered_for (event_id e) xs \<and>
           user v' = Some u \<and> event v' = Some e"
  using assms
  by (auto simp: checkRegistrationStatus_def registered_for_def getRegisteredEvents_def
      eq_commute [of "event_id e"] split: sum.splits)

text \<open>
  So one view, left alone with the store, keeps the property through any number of clicks.
\<close>

lemma clicks_keep_at_most_once:
  assumes "user v = Some u" and "event v = Some e"
    and "getRegisteredEvents v st = Inr xs"
    and "at_most_once (st (registrations_key u))"
    and "isRegistered v = registered_for (event_id e) xs"
  shows "at_most_once (snd (clicks rest v st) (registrations_key u))"
  using assms
proof (induction rest arbitrary: v st xs)
  case Nil
  then show ?case by simp
next
  case (Cons click rest)
  obtain room now where click: "click = (room, now)" by (cases click)
  let ?v' = "fst (handleRegister room now v st)" and ?st' = "snd (handleRegister room now v st)"
  from handleRegister_step [OF Cons.prems, of room now]
  obtain ys where ys: "getRegisteredEvents ?v' ?st' = Inr ys"
    and once: "at_most_once (?st' (registrations_key u))"
    and flag: "isRegistered ?v' = registered_for (event_id e) ys"
    by blast
  have "user ?v' = Some u" and "event ?v' = Some e"
    using Cons.prems(1,2) by (simp_all add: handleRegister_view)
  from Cons.IH [OF this ys once flag]
  show ?case by (simp add: click case_prod_unfold)
qed

lemma session_keeps_at_most_once:
  assumes "user v = Some u" and "event v = Some e"
    and "parseInt (eventId v) = Some (event_id e)"
    and "at_most_once (st (registrations_key u))"
    and "checkRegistrationStatus v st = Inr v'"
  shows "at_most_once (snd (clicks rest v' st) (registrations_key u))"
proof -
  from checkRegistrationStatus_agrees [OF assms(1,2,3,5)]
  obtain xs where "getRegisteredEvents v' st = Inr xs"
    and "isRegistered v' = registered_for (event_id e) xs"
    and "user v' = Some u" and "event v' = Some e"
    by blast
  then show ?thesis
    using assms(4) clicks_keep_at_most_once [of v' u e st xs rest] by simp
qed

text \<open>
  Claim C1, as stated: the stored list of a user holds at most one registration for each
  event identifier after every register and unregister operation. It fails, because
  \<open>handleRegister\<close> decides on the flag that the membership check set when the view was
  mounted, and not on the list it reads: two views of the same event, both mounted while the
  list is empty, both register, and the list then holds the event twice.
\<close>

theorem two_views_register_twice:
  "checkRegistrationStatus (mounted alice ''1'' iphone) Map.empty =
     Inr (mounted alice ''1'' iphone) \<and>
   at_most_once (Map.empty (registrations_key alice)) \<and>
   snd (handleRegister True wednesday (mounted alice ''1'' iphone)
          (snd (handleRegister True tuesday (mounted alice ''1'' iphone) Map.empty)))
     (registrations_key alice) =
     Some (Json [stored tuesday iphone, stored wednesday iphone]) \<and>
   \<not> at_most_once
       (snd (handleRegister True wednesday (mounted alice ''1'' iphone)
               (snd (handleRegister True tuesday (mounted alice ''1'' iphone) Map.empty)))
          (registrations_key alice))"
proof -
  let ?v = "mounted alice ''1'' iphone"
  let ?st1 = "snd (handleRegister True tuesday ?v Map.empty)"
  let ?st2 = "snd (handleRegister True wednesday ?v ?st1)"
  have h: "user ?v = Some alice" "event ?v = Some iphone" "\<not> isRegistered ?v"
    by (simp_all add: mounted_fields)
  have g0: "getRegisteredEvents ?v Map.empty = Inr []"
    by (simp add: getRegisteredEvents_nothing_stored [OF h(1)])
  have check: "checkRegistrationStatus ?v Map.empty = Inr ?v"
    using g0 by (simp add: checkRegistrationStatus_def mounted_def)
  have st1: "?st1 (registrations_key alice) = Some (Json [stored tuesday iphone])"
    using handleRegister_register_branch(1) [OF h g0, of tuesday] by (simp add: stored_def)
  have g1: "getRegisteredEvents ?v ?st1 = Inr [newRegistration tuesday iphone]"
    using h(1) st1 by (simp add: getRegisteredEvents_def parse_registrations_def parse_stored)
  have st2: "?st2 (registrations_key alice) =
      Some (Json [stored tuesday iphone, stored wednesday iphone])"
    using handleRegister_register_branch(1) [OF h g1, of wednesday] by (simp add: stored_def)
  have "\<not> at_most_once (?st2 (registrations_key alice))"
    by (simp add: st2 at_most_once_def reg_id_stored)
  moreover have "at_most_once (Map.empty (registrations_key alice))"
    by (simp add: at_most_once_def)
  ultimately show ?thesis using check st2 by blast
qed

text \<open>
  Claim C1, amended: if the stored list of the user holds at most one registration for each
  identifier, and the flag of the view says whether the stored list holds a registration
  for the loaded event (what the membership check finds in the list as it is now), then
  after \<open>handleRegister\<close> the stored list again holds at most one registration for each
  identifier and the flag again says what the list holds; in the branch that unregisters,
  every stored registration was stored before. The profile view's \<open>handleUnregister\<close>,
  on the list that the view loaded from the store, also stores a list with at most one
  registration for each identifier. Both hold whether the browser has room for the write
  or not.
\<close>

theorem handleRegister_keeps_at_most_once:
  assumes "user v = Some u" and "event v = Some e"
    and "getRegisteredEvents v st = Inr xs"
    and "at_most_once (st (registrations_key u))"
    and "isRegistered v = registered_for (event_id e) xs"
    and "profile_user p = Some u"
  shows "(\<exists>ys. getRegisteredEvents (fst (handleRegister room now v st))
                (snd (handleRegister room now v st)) = Inr ys \<and>
           at_most_once (snd (handleRegister room now v st) (registrations_key u)) \<and>
           isRegistered (fst (handleRegister room now v st)) = registered_for (event_id e) ys \<and>
           (isRegistered v \<longrightarrow> set ys \<subseteq> set xs)) \<and>
         at_most_once
           (snd (handleUnregister room' n t (loadRegisteredEvents engine getTime p st) st)
              (registrations_key u))"
proof
  show "\<exists>ys. getRegisteredEvents (fst (handleRegister room now v st))
                (snd (handleRegister room now v st)) = Inr ys \<and>
           at_most_once (snd (handleRegister room now v st) (registrations_key u)) \<and>
           isRegistered (fst (handleRegister room now v st)) = registered_for (event_id e) ys \<and>
           (isRegistered v \<longrightarrow> set ys \<subseteq> set xs)"
    by (rule handleRegister_step [OF assms(1-5)])
  have dist: "distinct (map reg_id xs)"
    using at_most_once_stored [OF assms(1,3)] assms(4) by simp
  have parse: "parse_registrations (st (registrations_key u)) = Inr xs"
    using assms(1,3) by (simp add: getRegisteredEvents_def)
  have view: "registeredEvents (loadRegisteredEvents engine getTime p st) =
      array_sort engine (by_registeredAt getTime) xs"
    and puser: "profile_user (loadRegisteredEvents engine getTime p st) = Some u"
    using loadRegisteredEvents_view [of p u st xs engine getTime] assms(6) parse by simp_all
  show "at_most_once
           (snd (handleUnregister room' n t (loadRegisteredEvents engine getTime p st) st)
              (registrations_key u))"
  proof (cases room')
    case True
    with dist show ?thesis
      by (simp add: handleUnregister_stored [OF puser] view at_most_once_def
          map_reg_id_stringify distinct_map_filter distinct_ids_array_sort del: map_map)
  next
    case False
    with assms(4) show ?thesis
      by (simp add: handleUnregister_no_room [OF puser])
  qed
qed

theorem handleRegister_keeps_at_most_once_witness:
  "user (mounted alice ''1'' iphone) = Some alice \<and>
   event (mounted alice ''1'' iphone) = Some iphone \<and>
   getRegisteredEvents (mounted alice ''1'' iphone)
     [registrations_key alice \<mapsto> Json [stored sunday plant]] =
     Inr [newRegistration sunday plant] \<and>
   at_most_once
     ([registrations_key alice \<mapsto> Json [stored sunday plant]]
        (registrations_key alice)) \<and>
   isRegistered (mounted alice ''1'' iphone) =
     registered_for (event_id iphone) [newRegistration sunday plant] \<and>
   profile_user (profile_of alice) = Some alice \<and>
   at_most_once
     (snd (handleRegister True tuesday (mounted alice ''1'' iphone)
             [registrations_key alice \<mapsto> Json [stored sunday plant]])
        (registrations_key alice)) \<and>
   at_most_once
     (snd (handleUnregister True 26 ''Plant Hanger''
             (loadRegisteredEvents rev getTime_of_examples (profile_of alice)
                [registrations_key alice \<mapsto> Json [stored sunday plant]])
             [registrations_key alice \<mapsto> Json [stored sunday plant]])
        (registrations_key alice))"
proof -
  let ?v = "mounted alice ''1'' iphone"
  let ?st = "[registrations_key alice \<mapsto> Json [stored sunday plant]]"
  have h1: "user ?v = Some alice" and h2: "event ?v = Some iphone"
    by (simp_all add: mounted_fields)
  have h3: "getRegisteredEvents ?v ?st = Inr [newRegistration sunday plant]"
    using h1 by (simp add: getRegisteredEvents_def parse_registrations_def parse_stored)
  have h4: "at_most_once (?st (registrations_key alice))"
    by (simp add: at_most_once_def)
  have h5: "isRegistered ?v = registered_for (event_id iphone) [newRegistration sunday plant]"
    by (simp add: mounted_fields registered_for_def reg_id_newRegistration example_ids)
  have h6: "profile_user (profile_of alice) = Some alice"
    by (rule profile_of_user)
  from handleRegister_keeps_at_most_once
    [OF h1 h2 h3 h4 h5 h6, of True tuesday True 26 "''Plant Hanger''" rev getTime_of_examples]
  have "at_most_once (snd (handleRegister True tuesday ?v ?st) (registrations_key alice))"
    and "at_most_once
     (snd (handleUnregister True 26 ''Plant Hanger''
             (loadRegisteredEvents rev getTime_of_examples (profile_of alice) ?st) ?st)
        (registrations_key alice))"
    by blast+
  with h1 h2 h3 h4 h5 h6 show ?thesis by blast
qed

section \<open>Properties of the profile view\<close>

lemma loadRegisteredEvents_of_store:
  assumes "profile_user p = Some u"
    and "st (registrations_key u) = None \<and> raw = [] \<or> st (registrations_key u) = Some (Json raw)"
  shows "registeredEvents (loadRegisteredEvents engine getTime p st) =
           array_sort engine (by_registeredAt getTime) (map parse_registration raw)"
    and "profile_user (loadRegisteredEvents engine getTime p st) = Some u"
  using assms by (auto simp: loadRegisteredEvents_def parse_registrations_def)

lemma newest_first_stringify:
  "newest_first getTime (map stringify_registration xs) = newest_first getTime xs"
  by (simp add: newest_first_def sorted_wrt_map registeredAt_stringify cong: option.case_cong)

lemma alice_store_holds:
  "alice_store (registrations_key alice) =
     Some (Json [stored sunday iphone, stored tuesday perfume, stored wednesday plant])"
  by (simp add: alice_store_def)

lemma alice_store_reached:
  "snd (handleRegister True wednesday (mounted alice ''26'' plant)
     (snd (handleRegister True tuesday (mounted alice ''11'' perfume)
        (snd (handleRegister True sunday (mounted alice ''1'' iphone) Map.empty)))))
     (registrations_key alice) = alice_store (registrations_key alice)"
proof -
  let ?st1 = "snd (handleRegister True sunday (mounted alice ''1'' iphone) Map.empty)"
  let ?st2 = "snd (handleRegister True tuesday (mounted alice ''11'' perfume) ?st1)"
  have g0: "getRegisteredEvents (mounted alice ''1'' iphone) Map.empty = Inr []"
    by (simp add: getRegisteredEvents_nothing_stored [OF mounted_fields(1)])
  have st1: "?st1 (registrations_key alice) = Some (Json [stored sunday iphone])"
    using handleRegister_register_branch(1) [OF mounted_fields(1,2,4) g0, of sunday]
    by (simp add: stored_def)
  have g1: "getRegisteredEvents (mounted alice ''11'' perfume) ?st1 =
      Inr [newRegistration sunday iphone]"
    using st1
    by (simp add: getRegisteredEvents_def parse_registrations_def mounted_fields parse_stored)
  have st2: "?st2 (registrations_key alice) =
      Some (Json [stored sunday iphone, stored tuesday perfume])"
    using handleRegister_register_branch(1) [OF mounted_fields(1,2,4) g1, of tuesday]
    by (simp add: stored_def)
  have g2: "getRegisteredEvents (mounted alice ''26'' plant) ?st2 =
      Inr [newRegistration sunday iphone, newRegistration tuesday perfume]"
    using st2
    by (simp add: getRegisteredEvents_def parse_registrations_def mounted_fields parse_stored)
  show ?thesis
    using handleRegister_register_branch(1) [OF mounted_fields(1,2,4) g2, of wednesday]
    by (simp add: alice_store_def stored_def)
qed

lemma alice_profile_loaded:
  "registeredEvents (loadRegisteredEvents engine getTime_of_examples (profile_of alice) alice_store) =
     [newRegistration wednesday plant, newRegistration tuesday perfume,
      newRegistration sunday iphone]"
  "profile_user (loadRegisteredEvents engine getTime_of_examples (profile_of alice) alice_store) =
     Some alice"
  using loadRegisteredEvents_of_store
    [of "profile_of alice" alice alice_store
      "[stored sunday iphone, stored tuesday perfume, stored wednesday plant]"
      engine getTime_of_examples]
    profile_of_user [of alice] alice_store_holds
  by (simp_all add: parse_stored example_sorted)

text \<open>
  The views keep the dates: \<open>handleRegister\<close> writes the clock's \<open>toISOString\<close> as
  \<open>registeredAt\<close>, a date for the platform, and both operations store nothing else that was
  not stored before. So a store that only the views have written holds dates only.
\<close>

lemma handleRegister_keeps_dated:
  assumes "user v = Some u" and "dated getTime (st (registrations_key u))"
    and "getTime (toISOString now) \<noteq> None"
  shows "dated getTime (snd (handleRegister room now v st) (registrations_key u))"
proof (cases "event v")
  case None
  with assms show ?thesis by (simp add: handleRegister_def)
next
  case (Some e)
  show ?thesis
  proof (cases room)
    case False
    with assms(1,2) Some show ?thesis by (simp add: handleRegister_no_room)
  next
    case True
    consider "st (registrations_key u) = None"
      | raw where "st (registrations_key u) = Some (Json raw)"
      | "st (registrations_key u) = Some Unparsable"
      by (cases "st (registrations_key u)") (auto intro: item.exhaust)
    then show ?thesis
    proof cases
      case 1
      then have read: "getRegisteredEvents v st = Inr []"
        using assms(1) by (simp add: getRegisteredEvents_nothing_stored)
      show ?thesis
      proof (cases "isRegistered v")
        case r: True
        from handleRegister_unregister_branch(1) [OF assms(1) Some r read, of now]
        show ?thesis using True by (simp add: dated_def)
      next
        case r: False
        from handleRegister_register_branch(1) [OF assms(1) Some r read, of now]
        show ?thesis using True assms(3)
          by (simp add: dated_def registeredAt_stringify registeredAt_newRegistration)
      qed
    next
      case 2
      then have read: "getRegisteredEvents v st = Inr (map parse_registration raw)"
        using assms(1) by (simp add: getRegisteredEvents_stored)
      from 2 assms(2) have old: "list_all (\<lambda>r. getTime (registeredAt r) \<noteq> None) raw"
        by (simp add: dated_def)
      show ?thesis
      proof (cases "isRegistered v")
        case r: True
        from handleRegister_unregister_branch(1) [OF assms(1) Some r read, of now]
        have "snd (handleRegister True now v st) (registrations_key u) =
            Some (Json (filter (\<lambda>r. reg_id r \<noteq> event_id e) raw))"
          by (simp only: stringify_filter_parsed)
        with old show ?thesis using True by (simp add: dated_def list_all_iff)
      next
        case r: False
        from handleRegister_register_branch(1) [OF assms(1) Some r read, of now]
        have "snd (handleRegister True now v st) (registrations_key u) =
            Some (Json (raw @ [stringify_registration (newRegistration now e)]))"
          by (simp add: stringify_parse_comp)
        with old assms(3) show ?thesis using True
          by (simp add: dated_def registeredAt_stringify registeredAt_newRegistration)
      qed
    next
      case 3
      with assms(1) have "getRegisteredEvents v st = Inl SyntaxError"
        by (simp add: getRegisteredEvents_def parse_registrations_def)
      then have "handleRegister room now v st = (registrationFailed v, st)"
        by (rule handleRegister_unparsable [OF assms(1) Some])
      with 3 show ?thesis by (simp add: dated_def)
    qed
  qed
qed

lemma handleUnregister_keeps_dated:
  assumes "profile_user p = Some u"
    and "st (registrations_key u) = None \<and> raw = [] \<or> st (registrations_key u) = Some (Json raw)"
    and "dated getTime (st (registrations_key u))"
  shows "dated getTime
    (snd (handleUnregister room n t (loadRegisteredEvents engine getTime p st) st)
       (registrations_key u))"
proof (cases room)
  case False
  have "profile_user (loadRegisteredEvents engine getTime p st) = Some u"
    using loadRegisteredEvents_of_store(2) [of p u st raw engine getTime] assms(1,2) by blast
  with False assms(3) show ?thesis by (simp add: handleUnregister_no_room)
next
  case True
  let ?xs = "map parse_registration raw"
  have view: "registeredEvents (loadRegisteredEvents engine getTime p st) =
      array_sort engine (by_registeredAt getTime) ?xs"
    and puser: "profile_user (loadRegisteredEvents engine getTime p st) = Some u"
    using loadRegisteredEvents_of_store [of p u st raw engine getTime] assms(1,2) by blast+
  from assms(2,3) have "\<forall>r \<in> set raw. getTime (registeredAt r) \<noteq> None"
    by (auto simp: dated_def list_all_iff)
  then have "\<forall>r \<in> set (array_sort engine (by_registeredAt getTime) ?xs).
      getTime (registeredAt r) \<noteq> None"
    by (simp add: set_array_sort registeredAt_parse)
  then show ?thesis
    using True
    by (simp add: handleUnregister_stored [OF puser] view dated_def list_all_iff
        registeredAt_stringify)
qed

text \<open>
  Claim C6, as stated: for every stored list, \<open>loadRegisteredEvents\<close> yields a permutation of
  it sorted by the time value of \<open>registeredAt\<close>, newest first. It fails for a stored list with
  a \<open>registeredAt\<close> that is no date: its time value is NaN, every comparison with it is NaN,
  which counts as zero, and the list of the example is left as it is. It is not in descending
  order of the time values, and neither is its other arrangement.
\<close>

theorem undated_registration_not_sorted:
  "getTime_of_examples (registeredAt undated) = None \<and>
   registeredEvents
     (loadRegisteredEvents rev getTime_of_examples (profile_of alice)
        [registrations_key alice \<mapsto> Json [stored sunday iphone, undated]]) =
     [parse_registration (stored sunday iphone), parse_registration undated] \<and>
   \<not> newest_first getTime_of_examples
       (registeredEvents
          (loadRegisteredEvents rev getTime_of_examples (profile_of alice)
             [registrations_key alice \<mapsto> Json [stored sunday iphone, undated]])) \<and>
   \<not> newest_first getTime_of_examples
       [parse_registration undated, parse_registration (stored sunday iphone)]"
proof -
  let ?a = "parse_registration (stored sunday iphone)" and ?b = "parse_registration undated"
  let ?st = "[registrations_key alice \<mapsto> Json [stored sunday iphone, undated]]"
  let ?c = "SortCompare (by_registeredAt getTime_of_examples)"
  have nodate: "getTime_of_examples (registeredAt undated) = None"
    by (simp add: undated_def getTime_of_examples_def)
  then have b: "getTime_of_examples (registeredAt ?b) = None"
    by (simp add: registeredAt_parse)
  have a: "getTime_of_examples (registeredAt ?a) = Some 1793520000000"
    by (simp add: parse_stored example_times)
  have c: "?c ?a ?a = 0" "?c ?a ?b = 0" "?c ?b ?a = 0" "?c ?b ?b = 0"
    by (simp_all add: SortCompare_def by_registeredAt_def a b)
  then have "consistent ?c [?a, ?b]"
    by (simp add: consistent_def)
  then have "array_sort rev (by_registeredAt getTime_of_examples) [?a, ?b] =
      foldr (insert_before ?c) [?a, ?b] []"
    by (rule array_sort_consistent)
  then have sorted: "array_sort rev (by_registeredAt getTime_of_examples) [?a, ?b] = [?a, ?b]"
    by (simp add: c)
  have "registeredEvents (loadRegisteredEvents rev getTime_of_examples (profile_of alice) ?st) =
      array_sort rev (by_registeredAt getTime_of_examples)
        (map parse_registration [stored sunday iphone, undated])"
    using loadRegisteredEvents_of_store(1)
      [of "profile_of alice" alice ?st "[stored sunday iphone, undated]" rev getTime_of_examples]
      profile_of_user [of alice]
    by simp
  then have view: "registeredEvents
      (loadRegisteredEvents rev getTime_of_examples (profile_of alice) ?st) = [?a, ?b]"
    by (simp add: sorted)
  have "\<not> newest_first getTime_of_examples [?a, ?b]"
    and "\<not> newest_first getTime_of_examples [?b, ?a]"
    by (simp_all add: newest_first_def a b)
  with nodate view show ?thesis by simp
qed

text \<open>
  Claim C6, amended: for every stored list in which every \<open>registeredAt\<close> is a date (its
  time value is not NaN), what \<open>loadRegisteredEvents\<close> puts in the view is a permutation of
  the stored list, and it runs from the newest registration to the oldest by the time value
  of \<open>registeredAt\<close>.
\<close>

theorem loadRegisteredEvents_newest_first:
  assumes "profile_user v = Some u"
    and "st (registrations_key u) = None \<and> raw = [] \<or> st (registrations_key u) = Some (Json raw)"
    and "\<forall>r \<in> set raw. getTime (registeredAt r) \<noteq> None"
  shows "mset (registeredEvents (loadRegisteredEvents engine getTime v st)) =
           mset (map parse_registration raw) \<and>
         mset (map stringify_registration
                (registeredEvents (loadRegisteredEvents engine getTime v st))) = mset raw \<and>
         newest_first getTime (registeredEvents (loadRegisteredEvents engine getTime v st))"
proof -
  let ?xs = "map parse_registration raw"
  have view: "registeredEvents (loadRegisteredEvents engine getTime v st) =
      array_sort engine (by_registeredAt getTime) ?xs"
    using loadRegisteredEvents_of_store(1) [of v u st raw engine getTime] assms(1,2) by blast
  have dated: "\<forall>r \<in> set ?xs. getTime (registeredAt r) \<noteq> None"
    using assms(3) by (simp add: registeredAt_parse)
  have perm: "mset (array_sort engine (by_registeredAt getTime) ?xs) = mset ?xs"
    by (rule mset_array_sort)
  have "mset (map stringify_registration (array_sort engine (by_registeredAt getTime) ?xs)) =
      mset (map stringify_registration ?xs)"
    using perm by (metis mset_map)
  then have "mset (map stringify_registration (array_sort engine (by_registeredAt getTime) ?xs)) =
      mset raw"
    by (simp only: stringify_parse_list)
  with perm newest_first_array_sort [OF dated, of engine] show ?thesis
    by (simp only: view)
qed

text \<open>Whatever the dates, the view holds the stored registrations, each as often as stored.\<close>

lemma loadRegisteredEvents_permutes:
  assumes "profile_user v = Some u"
    and "st (registrations_key u) = None \<and> raw = [] \<or> st (registrations_key u) = Some (Json raw)"
  shows "mset (registeredEvents (loadRegisteredEvents engine getTime v st)) =
           mset (map parse_registration raw)"
  using loadRegisteredEvents_of_store(1) [of v u st raw engine getTime] assms
  by (simp add: mset_array_sort)

theorem loadRegisteredEvents_newest_first_witness:
  "profile_user (profile_of alice) = Some alice \<and>
   alice_store (registrations_key alice) =
     Some (Json [stored sunday iphone, stored tuesday perfume, stored wednesday plant]) \<and>
   list_all (\<lambda>r. getTime_of_examples (registeredAt r) \<noteq> None)
     [stored sunday iphone, stored tuesday perfume, stored wednesday plant] \<and>
   mset (registeredEvents
          (loadRegisteredEvents rev getTime_of_examples (profile_of alice) alice_store)) =
     mset [newRegistration sunday iphone, newRegistration tuesday perfume,
           newRegistration wednesday plant] \<and>
   newest_first getTime_of_examples
     (registeredEvents
        (loadRegisteredEvents rev getTime_of_examples (profile_of alice) alice_store)) \<and>
   registeredEvents (loadRegisteredEvents rev getTime_of_examples (profile_of alice) alice_store) =
     [newRegistration wednesday plant, newRegistration tuesday perfume,
      newRegistration sunday iphone]"
proof -
  let ?raw = "[stored sunday iphone, stored tuesday perfume, stored wednesday plant]"
  have h1: "profile_user (profile_of alice) = Some alice" by (rule profile_of_user)
  have h2: "alice_store (registrations_key alice) = Some (Json ?raw)"
    by (rule alice_store_holds)
  have h3: "list_all (\<lambda>r. getTime_of_examples (registeredAt r) \<noteq> None) ?raw"
    by (simp add: stored_def registeredAt_stringify example_times)
  then have h3': "\<forall>r \<in> set ?raw. getTime_of_examples (registeredAt r) \<noteq> None"
    by (simp only: list_all_iff)
  from loadRegisteredEvents_newest_first
    [of "profile_of alice" alice alice_store ?raw getTime_of_examples rev] h1 h2 h3'
  have "mset (registeredEvents
          (loadRegisteredEvents rev getTime_of_examples (profile_of alice) alice_store)) =
          mset (map parse_registration ?raw)"
    and "newest_first getTime_of_examples
     (registeredEvents (loadRegisteredEvents rev getTime_of_examples (profile_of alice) alice_store))"
    by blast+
  then have "mset (registeredEvents
          (loadRegisteredEvents rev getTime_of_examples (profile_of alice) alice_store)) =
          mset [newRegistration sunday iphone, newRegistration tuesday perfume,
           newRegistration wednesday plant]"
    and "newest_first getTime_of_examples
     (registeredEvents (loadRegisteredEvents rev getTime_of_examples (profile_of alice) alice_store))"
    by (simp_all add: parse_stored)
  with h1 h2 h3 alice_profile_loaded(1) [of rev] show ?thesis by blast
qed

subsection \<open>Unregistering\<close>

text \<open>
  Claim C4, as stated: unregistering from the event of identifier \<open>E\<close>, in the detail view
  or in the profile view, stores the previous list with the entries of identifier \<open>E\<close>
  removed, the others in their original order. It fails in three ways. In the profile view
  \<open>handleUnregister\<close> filters the list of the view, which \<open>loadRegisteredEvents\<close> has sorted,
  and stores that: of the three registrations of the example, stored in the order in which
  they were made, the two that remain are stored newest first. The list of the view is the
  one that was stored when the view loaded it: in a profile view that loaded the first two
  registrations before the third was made in another tab, unregistering from the second
  stores the first alone, and the third is lost. And when the browser has no room for the
  value, \<open>setItem\<close> throws and the stored list stays as it was, the entry of identifier
  \<open>E\<close> in it.
\<close>

lemma example_sorted_two:
  "array_sort engine (by_registeredAt getTime_of_examples)
     [newRegistration sunday iphone, newRegistration tuesday perfume] =
   [newRegistration tuesday perfume, newRegistration sunday iphone]"
proof -
  let ?xs = "[newRegistration sunday iphone, newRegistration tuesday perfume]"
  have "\<forall>r \<in> set ?xs. getTime_of_examples (registeredAt r) \<noteq> None"
    by (simp add: example_times)
  then have "consistent (SortCompare (by_registeredAt getTime_of_examples)) ?xs"
    by (rule consistent_by_registeredAt)
  then have "array_sort engine (by_registeredAt getTime_of_examples) ?xs =
      foldr (insert_before (SortCompare (by_registeredAt getTime_of_examples))) ?xs []"
    by (rule array_sort_consistent)
  then show ?thesis
    by (simp add: SortCompare_by_registeredAt [OF example_times(1) example_times(2)]
      SortCompare_by_registeredAt [OF example_times(2) example_times(1)])
qed

theorem unregister_does_not_always_remove:
  "alice_store (registrations_key alice) =
     Some (Json [stored sunday iphone, stored tuesday perfume, stored wednesday plant]) \<and>
   snd (handleUnregister True 11 ''Perfume Oil''
          (loadRegisteredEvents rev getTime_of_examples (profile_of alice) alice_store)
          alice_store)
     (registrations_key alice) =
     Some (Json [stored wednesday plant, stored sunday iphone]) \<and>
   filter (\<lambda>r. reg_id r \<noteq> 11)
     [stored sunday iphone, stored tuesday perfume, stored wednesday plant] =
     [stored sunday iphone, stored wednesday plant] \<and>
   [stored wednesday plant, stored sunday iphone] \<noteq>
     [stored sunday iphone, stored wednesday plant] \<and>
   snd (handleUnregister True 11 ''Perfume Oil''
          (loadRegisteredEvents rev getTime_of_examples (profile_of alice)
             [registrations_key alice \<mapsto> Json [stored sunday iphone, stored tuesday perfume]])
          alice_store)
     (registrations_key alice) =
     Some (Json [stored sunday iphone]) \<and>
   [stored sunday iphone] \<noteq> [stored sunday iphone, stored wednesday plant] \<and>
   snd (handleUnregister False 11 ''Perfume Oil''
          (loadRegisteredEvents rev getTime_of_examples (profile_of alice) alice_store)
          alice_store)
     (registrations_key alice) =
     Some (Json [stored sunday iphone, stored tuesday perfume, stored wednesday plant])"
proof -
  let ?p = "loadRegisteredEvents rev getTime_of_examples (profile_of alice) alice_store"
  have puser: "profile_user ?p = Some alice"
    by (rule alice_profile_loaded(2))
  have "snd (handleUnregister True 11 ''Perfume Oil'' ?p alice_store) (registrations_key alice) =
     Some (Json [stored wednesday plant, stored sunday iphone])"
    by (simp add: handleUnregister_stored [OF puser] alice_profile_loaded(1)
        reg_id_newRegistration example_ids stored_def)
  moreover have "filter (\<lambda>r. reg_id r \<noteq> 11)
     [stored sunday iphone, stored tuesday perfume, stored wednesday plant] =
     [stored sunday iphone, stored wednesday plant]"
    by (simp add: reg_id_stored example_ids)
  moreover have "stored wednesday plant \<noteq> stored sunday iphone"
  proof
    assume "stored wednesday plant = stored sunday iphone"
    then have "reg_id (stored wednesday plant) = reg_id (stored sunday iphone)"
      by simp
    then show False by (simp add: reg_id_stored example_ids)
  qed
  moreover have "snd (handleUnregister True 11 ''Perfume Oil''
          (loadRegisteredEvents rev getTime_of_examples (profile_of alice)
             [registrations_key alice \<mapsto> Json [stored sunday iphone, stored tuesday perfume]])
          alice_store)
     (registrations_key alice) = Some (Json [stored sunday iphone])"
  proof -
    let ?st = "[registrations_key alice \<mapsto> Json [stored sunday iphone, stored tuesday perfume]]"
    let ?q = "loadRegisteredEvents rev getTime_of_examples (profile_of alice) ?st"
    have "?st (registrations_key alice) = None \<and>
        [stored sunday iphone, stored tuesday perfume] = [] \<or>
        ?st (registrations_key alice) =
          Some (Json [stored sunday iphone, stored tuesday perfume])"
      by simp
    with loadRegisteredEvents_of_store
      [of "profile_of alice" alice ?st "[stored sunday iphone, stored tuesday perfume]"
        rev getTime_of_examples] profile_of_user [of alice]
    have view: "registeredEvents ?q =
        [newRegistration tuesday perfume, newRegistration sunday iphone]"
      and quser: "profile_user ?q = Some alice"
      by (simp_all add: parse_stored example_sorted_two)
    have "snd (handleUnregister True 11 ''Perfume Oil'' ?q alice_store)
        (registrations_key alice) =
        Some (Json (map stringify_registration (filter (\<lambda>ev. reg_id ev \<noteq> 11)
          [newRegistration tuesday perfume, newRegistration sunday iphone])))"
      by (simp only: handleUnregister_stored [OF quser] view)
    then show ?thesis
      by (simp add: reg_id_newRegistration example_ids stored_def)
  qed
  moreover have "snd (handleUnregister False 11 ''Perfume Oil'' ?p alice_store)
      (registrations_key alice) =
     Some (Json [stored sunday iphone, stored tuesday perfume, stored wednesday plant])"
    by (simp add: handleUnregister_no_room [OF puser] alice_store_holds)
  ultimately show ?thesis by (simp add: alice_store_holds)
qed

text \<open>
  Claim C4, amended: when the browser has room for the write, the toggle of the detail
  view, the view being registered, stores the list that was stored with the entries of the
  event's identifier removed, the others unchanged and in their stored order; and the
  profile view's \<open>handleUnregister\<close>, when the view holds the list as \<open>loadRegisteredEvents\<close>
  loaded it from the store as it is now, stores exactly the stored entries of another
  identifier than \<open>E\<close>, unchanged, in the order of the view: from the newest registration to
  the oldest when every \<open>registeredAt\<close> is a date. When the browser has no room, either
  operation leaves the store as it was.
\<close>

theorem unregister_removes:
  assumes "user v = Some u" and "event v = Some e" and "isRegistered v"
    and "st (registrations_key u) = None \<and> raw = [] \<or> st (registrations_key u) = Some (Json raw)"
    and "profile_user p = Some u"
  shows "snd (handleRegister True now v st) (registrations_key u) =
           Some (Json (filter (\<lambda>r. reg_id r \<noteq> event_id e) raw)) \<and>
         snd (handleRegister False now v st) = st \<and>
         (\<exists>ys. snd (handleUnregister True n t (loadRegisteredEvents engine getTime p st) st)
                 (registrations_key u) = Some (Json ys) \<and>
               mset ys = mset (filter (\<lambda>r. reg_id r \<noteq> n) raw) \<and>
               ((\<forall>r \<in> set raw. getTime (registeredAt r) \<noteq> None) \<longrightarrow>
                  newest_first getTime ys)) \<and>
         snd (handleUnregister False n t (loadRegisteredEvents engine getTime p st) st) = st"
proof (intro conjI)
  let ?xs = "map parse_registration raw"
  let ?p = "loadRegisteredEvents engine getTime p st"
  let ?view = "array_sort engine (by_registeredAt getTime) ?xs"
  let ?kept = "filter (\<lambda>r. reg_id r \<noteq> n)"
  have read: "getRegisteredEvents v st = Inr ?xs"
    using assms(1,4)
    by (auto simp: getRegisteredEvents_stored getRegisteredEvents_nothing_stored)
  from handleRegister_unregister_branch(1) [OF assms(1-3) read, of now]
  show "snd (handleRegister True now v st) (registrations_key u) =
           Some (Json (filter (\<lambda>r. reg_id r \<noteq> event_id e) raw))"
    by (simp only: stringify_filter_parsed)
  show "snd (handleRegister False now v st) = st"
    by (simp add: handleRegister_no_room [OF assms(1,2)])
  have view: "registeredEvents ?p = ?view" and puser: "profile_user ?p = Some u"
    using loadRegisteredEvents_of_store [of p u st raw engine getTime] assms(4,5)
    by blast+
  have stored: "snd (handleUnregister True n t ?p st) (registrations_key u) =
      Some (Json (map stringify_registration (?kept ?view)))"
    by (simp add: handleUnregister_stored [OF puser] view)
  have "mset (?kept ?view) = mset (?kept ?xs)"
    by (simp add: mset_array_sort)
  then have "mset (map stringify_registration (?kept ?view)) =
      mset (map stringify_registration (?kept ?xs))"
    by (metis mset_map)
  then have perm: "mset (map stringify_registration (?kept ?view)) = mset (?kept raw)"
    by (simp only: stringify_filter_parsed)
  have order: "newest_first getTime (map stringify_registration (?kept ?view))"
    if dated: "\<forall>r \<in> set raw. getTime (registeredAt r) \<noteq> None"
  proof -
    from dated have "\<forall>r \<in> set ?xs. getTime (registeredAt r) \<noteq> None"
      by (simp add: registeredAt_parse)
    then have "newest_first getTime ?view"
      by (rule newest_first_array_sort)
    then have "newest_first getTime (?kept ?view)"
      unfolding newest_first_def by (rule sorted_wrt_filter)
    then show ?thesis by (simp only: newest_first_stringify)
  qed
  from stored perm order
  show "\<exists>ys. snd (handleUnregister True n t ?p st) (registrations_key u) = Some (Json ys) \<and>
               mset ys = mset (filter (\<lambda>r. reg_id r \<noteq> n) raw) \<and>
               ((\<forall>r \<in> set raw. getTime (registeredAt r) \<noteq> None) \<longrightarrow>
                  newest_first getTime ys)"
    by blast
  show "snd (handleUnregister False n t ?p st) = st"
    by (simp add: handleUnregister_no_room [OF puser])
qed

theorem unregister_removes_witness:
  "user ((mounted alice ''11'' perfume)\<lparr>isRegistered := True\<rparr>) = Some alice \<and>
   event ((mounted alice ''11'' perfume)\<lparr>isRegistered := True\<rparr>) = Some perfume \<and>
   isRegistered ((mounted alice ''11'' perfume)\<lparr>isRegistered := True\<rparr>) \<and>
   checkRegistrationStatus (mounted alice ''11'' perfume) alice_store =
     Inr ((mounted alice ''11'' perfume)\<lparr>isRegistered := True\<rparr>) \<and>
   alice_store (registrations_key alice) =
     Some (Json [stored sunday iphone, stored tuesday perfume, stored wednesday plant]) \<and>
   profile_user (profile_of alice) = Some alice \<and>
   snd (handleRegister True wednesday ((mounted alice ''11'' perfume)\<lparr>isRegistered := True\<rparr>)
          alice_store) (registrations_key alice) =
     Some (Json [stored sunday iphone, stored wednesday plant]) \<and>
   snd (handleRegister False wednesday ((mounted alice ''11'' perfume)\<lparr>isRegistered := True\<rparr>)
          alice_store) (registrations_key alice) =
     Some (Json [stored sunday iphone, stored tuesday perfume, stored wednesday plant]) \<and>
   snd (handleUnregister True 11 ''Perfume Oil''
          (loadRegisteredEvents rev getTime_of_examples (profile_of alice) alice_store)
          alice_store)
     (registrations_key alice) =
     Some (Json [stored wednesday plant, stored sunday iphone])"
proof -
  let ?v = "(mounted alice ''11'' perfume)\<lparr>isRegistered := True\<rparr>"
  let ?raw = "[stored sunday iphone, stored tuesday perfume, stored wednesday plant]"
  let ?p = "loadRegisteredEvents rev getTime_of_examples (profile_of alice) alice_store"
  have h1: "user ?v = Some alice" and h2: "event ?v = Some perfume" and h3: "isRegistered ?v"
    by (simp_all add: mounted_def)
  have h4: "alice_store (registrations_key alice) = Some (Json ?raw)"
    by (rule alice_store_holds)
  then have h4': "alice_store (registrations_key alice) = None \<and> ?raw = [] \<or>
      alice_store (registrations_key alice) = Some (Json ?raw)"
    by blast
  have h5: "profile_user (profile_of alice) = Some alice" by (rule profile_of_user)
  have route: "parseInt ''11'' = Some 11"
    by code_simp
  have check: "checkRegistrationStatus (mounted alice ''11'' perfume) alice_store = Inr ?v"
    by (simp add: checkRegistrationStatus_def getRegisteredEvents_def parse_registrations_def
        h4 mounted_def route reg_id_parse reg_id_stored example_ids)
  note t = unregister_removes
    [of ?v alice perfume alice_store ?raw "profile_of alice" wednesday 11 "''Perfume Oil''"
      rev getTime_of_examples, OF h1 h2 h3 h4' h5]
  from t have "snd (handleRegister True wednesday ?v alice_store) (registrations_key alice) =
           Some (Json (filter (\<lambda>r. reg_id r \<noteq> event_id perfume) ?raw))"
    by blast
  then have a: "snd (handleRegister True wednesday ?v alice_store) (registrations_key alice) =
           Some (Json [stored sunday iphone, stored wednesday plant])"
    by (simp add: reg_id_stored example_ids)
  from t have "snd (handleRegister False wednesday ?v alice_store) = alice_store"
    by blast
  then have b: "snd (handleRegister False wednesday ?v alice_store) (registrations_key alice) =
      Some (Json ?raw)"
    by (simp add: h4)
  have c: "snd (handleUnregister True 11 ''Perfume Oil'' ?p alice_store)
      (registrations_key alice) = Some (Json [stored wednesday plant, stored sunday iphone])"
    by (simp add: handleUnregister_stored [OF alice_profile_loaded(2)] alice_profile_loaded(1)
        reg_id_newRegistration example_ids stored_def)
  from h1 h2 h3 check h4 h5 a b c show ?thesis by blast
qed

end
